theory Spec2Isabelle
  imports Main "HOL-Library.AList" "HOL-Library.Sublist"
begin

section \<open>JavaScript values and plain objects\<close>

text \<open>
  The program is TypeScript run by Node. Strings are modelled by HOL strings, one \<open>char\<close>
  per code unit (code units 0 to 255). Counts are JavaScript numbers: an integer, or NaN
  where the arithmetic of the source produces it (the lists handled here are far shorter than
  \<open>2^53\<close>, so integers are exact).
\<close>

datatype jsnum = Num int | NaN

text \<open>A string-valued field that the API may leave \<open>null\<close> or \<open>undefined\<close>.\<close>

datatype jsstr = Str string | Null | Undefined

text \<open>
  The values that occur in the boolean expressions of the source: \<open>undefined\<close>, \<open>null\<close>,
  a boolean, or some object (always truthy).
\<close>

datatype jsval = VUndefined | VNull | VBool bool | VObject

fun truthy :: "jsval \<Rightarrow> bool" where
  "truthy (VBool b) = b"
| "truthy VObject = True"
| "truthy VUndefined = False"
| "truthy VNull = False"

text \<open>\<open>a && b\<close>: the left operand when it is falsy, the right one otherwise.\<close>

definition jsAnd :: "jsval \<Rightarrow> jsval \<Rightarrow> jsval" where
  "jsAnd a b = (if truthy a then b else a)"

text \<open>\<open>a ?? b\<close>: the right operand when the left one is \<open>null\<close> or \<open>undefined\<close>.\<close>

fun coalesce :: "jsval \<Rightarrow> jsval \<Rightarrow> jsval" where
  "coalesce VUndefined b = b"
| "coalesce VNull b = b"
| "coalesce a b = a"

text \<open>\<open>s.startsWith(p)\<close>: a case-sensitive prefix test.\<close>

definition startsWith :: "string \<Rightarrow> string \<Rightarrow> bool" where
  "startsWith s p = prefix p s"

subsection \<open>Objects used as dictionaries\<close>

text \<open>
  The source keeps its dictionaries in object literals \<open>{}\<close>. Such an object has own
  properties, kept here in insertion order, and inherits from \<open>Object.prototype\<close>: reading
  \<open>obj[k]\<close> for a key that is not an own property but names a member of
  \<open>Object.prototype\<close> yields that member (a function or object), not \<open>undefined\<close>.
\<close>

type_synonym 'v obj = "(string \<times> 'v) list"

definition objectPrototypeKeys :: "string list" where
  "objectPrototypeKeys =
     [''constructor'', ''__defineGetter__'', ''__defineSetter__'', ''hasOwnProperty'',
      ''__lookupGetter__'', ''__lookupSetter__'', ''isPrototypeOf'', ''propertyIsEnumerable'',
      ''toString'', ''valueOf'', ''__proto__'', ''toLocaleString'']"

datatype 'v lookup = Own 'v | Inherited | Absent

definition getProp :: "'v obj \<Rightarrow> string \<Rightarrow> 'v lookup" where
  "getProp ob k =
     (case map_of ob k of
        Some v \<Rightarrow> Own v
      | None \<Rightarrow> if k \<in> set objectPrototypeKeys then Inherited else Absent)"

text \<open>
  \<open>obj[k] = v\<close>: replaces an own property in place or appends a new one. The members of
  \<open>Object.prototype\<close> are writable, so the assignment shadows them, except \<open>__proto__\<close>,
  an accessor whose setter ignores a value that is not an object (every assignment that can
  reach it in the source stores a number).
\<close>

definition setProp :: "'v obj \<Rightarrow> string \<Rightarrow> 'v \<Rightarrow> 'v obj" where
  "setProp ob k v =
     (if k = ''__proto__'' \<and> map_of ob k = None then ob else AList.update k v ob)"

section \<open>Data model\<close>

record User =
  login :: string
  html_url :: string
  type :: string

record PullRequest =
  url :: string
  html_url :: string

record Author =
  username :: string
  link :: string

record PRInfo =
  title :: string
  author :: Author
  number :: int
  link :: string
  created_at :: "string option"

record PRCategory =
  category :: string
  prs :: "PRInfo list"

record Issue =
  number :: int
  title :: string
  user :: "User option"
  html_url :: string
  created_at :: string
  body :: jsstr
  pull_request :: "PullRequest option"

section \<open>Contributor classification\<close>

subsection \<open>\<open>isNewContributor\<close>\<close>

text \<open>
  \<open>contributorsMap[username] ?? 0\<close>: only \<open>undefined\<close> (no own and no inherited
  property) is replaced by zero.
\<close>

fun orZero :: "jsnum lookup \<Rightarrow> jsnum lookup" where
  "orZero Absent = Own (Num 0)"
| "orZero p = p"

text \<open>
  \<open>a === b\<close> on two values read under the same key: numbers compare by value and NaN
  differs from everything; two inherited values are the same member of \<open>Object.prototype\<close>.
\<close>

fun strictEq :: "jsnum lookup \<Rightarrow> jsnum lookup \<Rightarrow> bool" where
  "strictEq (Own (Num a)) (Own (Num b)) = (a = b)"
| "strictEq Inherited Inherited = True"
| "strictEq a b = False"

text \<open>\<open>a > 0\<close>: a function or object converts to NaN, and NaN compares false.\<close>

fun gtZero :: "jsnum lookup \<Rightarrow> bool" where
  "gtZero (Own (Num a)) = (0 < a)"
| "gtZero p = False"

definition isNewContributor :: "string \<Rightarrow> jsnum obj \<Rightarrow> jsnum obj \<Rightarrow> bool" where
  "isNewContributor uname contributorsMap milestoneCommits =
     (let totalCommits = orZero (getProp contributorsMap uname);
          milestoneCount = orZero (getProp milestoneCommits uname)
      in strictEq totalCommits milestoneCount \<and> gtZero totalCommits)"

text \<open>The count a map holds for a user name: its own numeric entry, zero otherwise.\<close>

definition countOf :: "jsnum obj \<Rightarrow> string \<Rightarrow> int" where
  "countOf m uname = (case map_of m uname of Some (Num n) \<Rightarrow> n | _ \<Rightarrow> 0)"

subsection \<open>\<open>getMilestonePRs\<close>\<close>

text \<open>\<open>!result[author]\<close> tests the truthiness of what the lookup yields.\<close>

fun toBoolean :: "jsnum lookup \<Rightarrow> bool" where
  "toBoolean (Own (Num n)) = (n \<noteq> 0)"
| "toBoolean (Own NaN) = False"
| "toBoolean Inherited = True"
| "toBoolean Absent = False"

text \<open>
  \<open>result[author]++\<close> converts the old value to a number (a function or object gives NaN),
  adds one and stores the sum.
\<close>

fun toNumber :: "jsnum lookup \<Rightarrow> jsnum" where
  "toNumber (Own v) = v"
| "toNumber Inherited = NaN"
| "toNumber Absent = NaN"

fun increment :: "jsnum \<Rightarrow> jsnum" where
  "increment (Num n) = Num (n + 1)"
| "increment NaN = NaN"

definition countPR :: "jsnum obj \<Rightarrow> string \<Rightarrow> jsnum obj" where
  "countPR result authorLogin =
     (let result1 = (if \<not> toBoolean (getProp result authorLogin)
                     then setProp result authorLogin (Num 0) else result)
      in setProp result1 authorLogin (increment (toNumber (getProp result1 authorLogin))))"

text \<open>
  The loop over the issues. \<open>issue.user?.login\<close> is \<open>undefined\<close> without a user, and
  \<open>if (author)\<close> also skips an empty login.
\<close>

fun getMilestonePRs_from :: "jsnum obj \<Rightarrow> Issue list \<Rightarrow> jsnum obj" where
  "getMilestonePRs_from result [] = result"
| "getMilestonePRs_from result (issue # rest) =
     getMilestonePRs_from
       (case pull_request issue of
          None \<Rightarrow> result
        | Some _ \<Rightarrow>
            (case user issue of
               None \<Rightarrow> result
             | Some u \<Rightarrow>
                 if User.login u \<noteq> [] then countPR result (User.login u) else result))
       rest"

definition getMilestonePRs :: "Issue list \<Rightarrow> jsnum obj" where
  "getMilestonePRs issues = getMilestonePRs_from [] issues"

subsection \<open>\<open>Object.values\<close>\<close>

text \<open>
  \<open>Object.values\<close> lists the own properties: first the keys that are array indices
  (canonical decimal numerals below \<open>2^32 - 1\<close>) in ascending numeric order, then the
  other keys in insertion order.
\<close>

definition isDigit :: "char \<Rightarrow> bool" where
  "isDigit c = (c \<in> set ''0123456789'')"

definition digitValue :: "char \<Rightarrow> int" where
  "digitValue c = of_char c - 48"

definition decimalValue :: "string \<Rightarrow> int" where
  "decimalValue ds = foldl (\<lambda>n c. 10 * n + digitValue c) 0 ds"

definition isArrayIndex :: "string \<Rightarrow> bool" where
  "isArrayIndex k =
     (k \<noteq> [] \<and> list_all isDigit k \<and> (k = ''0'' \<or> hd k \<noteq> CHR ''0'') \<and>
      decimalValue k < 4294967295)"

definition objectValues :: "'v obj \<Rightarrow> 'v list" where
  "objectValues ob =
     map snd (sort_key (\<lambda>p. decimalValue (fst p)) (filter (\<lambda>p. isArrayIndex (fst p)) ob) @
              filter (\<lambda>p. \<not> isArrayIndex (fst p)) ob)"

subsection \<open>\<open>getFirstTimeContributors\<close>\<close>

record Contributor =
  login :: "string option"
  contributions :: int

text \<open>
  The \<open>reduce\<close> over the contributors returned by the API (the successful response is an
  input here; a rejected request rejects the whole call).
\<close>

definition contributorsMapOf :: "Contributor list \<Rightarrow> jsnum obj" where
  "contributorsMapOf cs =
     foldl (\<lambda>acc c.
        case Contributor.login c of
          None \<Rightarrow> acc
        | Some l \<Rightarrow> if l \<noteq> [] then setProp acc l (Num (contributions c)) else acc) [] cs"

text \<open>
  \<open>new Date(a) > new Date(b)\<close>. \<open>Date\<close> is the platform's: \<open>dateOf\<close> gives the time
  value of a string in milliseconds, \<open>None\<close> for an invalid date, whose time value is NaN
  and compares false. A missing string (\<open>undefined\<close>) is an invalid date too.
\<close>

definition laterThan :: "(string \<Rightarrow> int option) \<Rightarrow> string option \<Rightarrow> string option \<Rightarrow> bool" where
  "laterThan dateOf a b =
     (case (Option.bind a dateOf, Option.bind b dateOf) of
        (Some ta, Some tb) \<Rightarrow> ta > tb
      | _ \<Rightarrow> False)"

definition newPRInfo :: "Issue \<Rightarrow> User \<Rightarrow> PRInfo" where
  "newPRInfo pr u =
     \<lparr>PRInfo.title = Issue.title pr,
      author = \<lparr>username = User.login u, link = User.html_url u\<rparr>,
      number = Issue.number pr,
      link = Issue.html_url pr,
      created_at = Some (Issue.created_at pr)\<rparr>"

text \<open>
  One iteration of the loop over the pull requests. When the map holds no own entry for a
  user whose name is a member of \<open>Object.prototype\<close>, the lookup is truthy and its
  \<open>created_at\<close> is \<open>undefined\<close>, so the comparison is false and nothing is stored.
\<close>

definition firstTimeStep ::
  "(string \<Rightarrow> int option) \<Rightarrow> jsnum obj \<Rightarrow> jsnum obj \<Rightarrow> PRInfo obj \<Rightarrow> Issue \<Rightarrow> PRInfo obj" where
  "firstTimeStep dateOf contributorsMap usersMilestonePRs m pr =
     (case user pr of
        None \<Rightarrow> m
      | Some u \<Rightarrow>
          if \<not> isNewContributor (User.login u) contributorsMap usersMilestonePRs then m
          else
            (case getProp m (User.login u) of
               Own old \<Rightarrow>
                 if laterThan dateOf (PRInfo.created_at (newPRInfo pr u)) (PRInfo.created_at old)
                 then setProp m (User.login u) (newPRInfo pr u) else m
             | Inherited \<Rightarrow> m
             | Absent \<Rightarrow> setProp m (User.login u) (newPRInfo pr u)))"

definition getFirstTimeContributors ::
  "(string \<Rightarrow> int option) \<Rightarrow> Contributor list \<Rightarrow> Issue list \<Rightarrow> PRInfo list" where
  "getFirstTimeContributors dateOf contributors issues =
     objectValues
       (foldl (firstTimeStep dateOf (contributorsMapOf contributors) (getMilestonePRs issues))
          [] issues)"

subsection \<open>Time values of API timestamps\<close>

text \<open>
  The API writes timestamps as \<open>YYYY-MM-DDTHH:MM:SSZ\<close>. For such a string that names an
  existing day and time, \<open>isoTime\<close> computes the time value \<open>Date\<close> gives it
  (milliseconds since 1970-01-01T00:00:00Z). It instantiates \<open>dateOf\<close> where a concrete
  run is evaluated, and is not meant for other strings, on which it is \<open>None\<close>.
\<close>

definition daysFromCivil :: "int \<Rightarrow> int \<Rightarrow> int \<Rightarrow> int" where
  "daysFromCivil y m d =
     (let y1 = (if m \<le> 2 then y - 1 else y);
          era = y1 div 400;
          yoe = y1 - era * 400;
          doy = (153 * (if m > 2 then m - 3 else m + 9) + 2) div 5 + d - 1;
          doe = yoe * 365 + yoe div 4 - yoe div 100 + doy
      in era * 146097 + doe - 719468)"

definition field :: "string \<Rightarrow> int option" where
  "field ds = (if ds \<noteq> [] \<and> list_all isDigit ds then Some (decimalValue ds) else None)"

definition isoTime :: "string \<Rightarrow> int option" where
  "isoTime s =
     (if length s = 20 \<and> s ! 4 = CHR ''-'' \<and> s ! 7 = CHR ''-'' \<and> s ! 10 = CHR ''T'' \<and>
         s ! 13 = CHR '':'' \<and> s ! 16 = CHR '':'' \<and> s ! 19 = CHR ''Z''
      then
        (case (field (take 4 s), field (take 2 (drop 5 s)), field (take 2 (drop 8 s)),
               field (take 2 (drop 11 s)), field (take 2 (drop 14 s)), field (take 2 (drop 17 s))) of
           (Some y, Some mo, Some d, Some h, Some mi, Some sec) \<Rightarrow>
             if 1 \<le> mo \<and> mo \<le> 12 \<and> 1 \<le> d \<and>
                d \<le> daysFromCivil (if mo = 12 then y + 1 else y) (if mo = 12 then 1 else mo + 1) 1
                      - daysFromCivil y mo 1 \<and>
                h < 24 \<and> mi < 60 \<and> sec < 60
             then Some ((((daysFromCivil y mo d * 24 + h) * 60 + mi) * 60 + sec) * 1000)
             else None
         | _ \<Rightarrow> None)
      else None)"

section \<open>Regular expressions of the source\<close>

text \<open>
  Each regular expression of the source is written out as the backtracking matcher it
  denotes: alternatives are tried in order, a greedy repetition tries one more repetition
  before it tries the rest of the pattern, and an unanchored search tries every start
  position from the left.
\<close>

text \<open>\<open>\s\<close> among the code units 0 to 255: TAB, LF, VT, FF, CR, space and NBSP.\<close>

definition isWhiteSpace :: "char \<Rightarrow> bool" where
  "isWhiteSpace c = (c \<in> set [CHR 0x09, CHR 0x0A, CHR 0x0B, CHR 0x0C, CHR 0x0D, CHR 0x20, CHR 0xA0])"

text \<open>
  The flag \<open>i\<close> compares canonical forms, the upper-case letter for an ASCII letter. The
  canonical form of a code unit from 128 on is never an ASCII character, and the patterns of
  the source hold ASCII characters only, so other code units are left as they are.
\<close>

definition canonicalize :: "char \<Rightarrow> char" where
  "canonicalize c =
     (let n = (of_char c :: nat) in if 97 \<le> n \<and> n \<le> 122 then char_of (n - 32) else c)"

text \<open>
  \<open>toLowerCase\<close> on the code units 0 to 255: the ASCII capitals, and the Latin-1 capitals
  \<open>0xC0\<close> to \<open>0xDE\<close> without the multiplication sign \<open>0xD7\<close>, move up by 32.
\<close>

definition toLowerChar :: "char \<Rightarrow> char" where
  "toLowerChar c =
     (let n = (of_char c :: nat)
      in if (65 \<le> n \<and> n \<le> 90) \<or> (192 \<le> n \<and> n \<le> 222 \<and> n \<noteq> 215) then char_of (n + 32) else c)"

definition toLowerCase :: "string \<Rightarrow> string" where
  "toLowerCase s = map toLowerChar s"

text \<open>A literal of the pattern matched at the start of the input under the flag \<open>i\<close>.\<close>

fun literalCI :: "string \<Rightarrow> string \<Rightarrow> bool" where
  "literalCI [] s = True"
| "literalCI (p # ps) [] = False"
| "literalCI (p # ps) (c # cs) = (canonicalize c = canonicalize p \<and> literalCI ps cs)"

text \<open>Ordered alternation: the first alternative whose continuation succeeds.\<close>

fun firstMatch :: "('a \<Rightarrow> 'b option) \<Rightarrow> 'a list \<Rightarrow> 'b option" where
  "firstMatch f [] = None"
| "firstMatch f (x # xs) = (case f x of Some y \<Rightarrow> Some y | None \<Rightarrow> firstMatch f xs)"

subsection \<open>\<open>/^\s*(chore|feat|docs|fix|refactor|test|ci)/i\<close>\<close>

definition categoryKeywords :: "string list" where
  "categoryKeywords = [''chore'', ''feat'', ''docs'', ''fix'', ''refactor'', ''test'', ''ci'']"

text \<open>The group at the start of the input: the text it captures.\<close>

definition categoryGroup :: "string \<Rightarrow> string option" where
  "categoryGroup s =
     firstMatch (\<lambda>k. if literalCI k s then Some (take (length k) s) else None) categoryKeywords"

text \<open>
  \<open>title.match(...)\<close>: the pattern is anchored at the start of the title. The result is
  the capture \<open>match[1]\<close>, or \<open>None\<close> for \<open>null\<close>.
\<close>

fun titleMatch :: "string \<Rightarrow> string option" where
  "titleMatch [] = categoryGroup []"
| "titleMatch (c # cs) =
     (if isWhiteSpace c
      then (case titleMatch cs of Some g \<Rightarrow> Some g | None \<Rightarrow> categoryGroup (c # cs))
      else categoryGroup (c # cs))"

subsection \<open>\<open>/\(test/i\<close>\<close>

fun searchCI :: "string \<Rightarrow> string \<Rightarrow> bool" where
  "searchCI p [] = literalCI p []"
| "searchCI p (c # cs) = (literalCI p (c # cs) \<or> searchCI p cs)"

definition matchTest :: "string \<Rightarrow> bool" where
  "matchTest s = searchCI ''(test'' s"

subsection \<open>\<open>/(Closes|Fixes)\s#\d+/i\<close>\<close>

text \<open>
  What follows the keyword: one white-space character, the hash sign and the longest run of
  digits, one at least. The result is the whole matched text, \<open>k\<close> being the length of
  the keyword.
\<close>

definition issueRefTail :: "nat \<Rightarrow> string \<Rightarrow> string option" where
  "issueRefTail k s =
     (case drop k s of
        w # h # rest \<Rightarrow>
          if isWhiteSpace w \<and> h = CHR ''#'' \<and> takeWhile isDigit rest \<noteq> []
          then Some (take (k + 2) s @ takeWhile isDigit rest) else None
      | _ \<Rightarrow> None)"

definition issueRefAt :: "string \<Rightarrow> string option" where
  "issueRefAt s =
     firstMatch (\<lambda>k. if literalCI k s then issueRefTail (length k) s else None)
       [''Closes'', ''Fixes'']"

text \<open>\<open>body.match(...)\<close> without the flag \<open>g\<close>: the leftmost match, \<open>match[0]\<close>.\<close>

fun issueMatch :: "string \<Rightarrow> string option" where
  "issueMatch [] = issueRefAt []"
| "issueMatch (c # cs) =
     (case issueRefAt (c # cs) of Some m \<Rightarrow> Some m | None \<Rightarrow> issueMatch cs)"

text \<open>\<open>s.split(c)\<close> for a separator of one character.\<close>

fun split :: "char \<Rightarrow> string \<Rightarrow> string list" where
  "split sep [] = [[]]"
| "split sep (c # cs) =
     (if c = sep then [] # split sep cs
      else (case split sep cs of p # ps \<Rightarrow> (c # p) # ps | [] \<Rightarrow> [[c]]))"

text \<open>Reading an array at an index: \<open>undefined\<close> beyond its end.\<close>

definition at :: "string list \<Rightarrow> nat \<Rightarrow> jsstr" where
  "at xs i = (if i < length xs then Str (xs ! i) else Undefined)"

section \<open>Issue-body enrichment\<close>

datatype error = Error string

record IssueRequest =
  owner :: string
  repo :: string
  issue_number :: jsstr

text \<open>String concatenation \<open>a + b\<close> converts \<open>null\<close> and \<open>undefined\<close> to their names.\<close>

fun toString :: "jsstr \<Rightarrow> string" where
  "toString (Str s) = s"
| "toString Null = ''null''"
| "toString Undefined = ''undefined''"

text \<open>
  \<open>includeDataFromIssue\<close>. \<open>issuesGet\<close> stands for \<open>octokit.issues.get\<close>: it fails
  (the promise rejects) or answers, \<open>None\<close> when the response or its \<open>data\<close> is missing.
  The second component of the result lists the requests made.
\<close>

definition includeDataFromIssue ::
  "(IssueRequest \<Rightarrow> error + Issue option) \<Rightarrow> string \<Rightarrow> string \<Rightarrow> Issue
     \<Rightarrow> (error + Issue) \<times> IssueRequest list" where
  "includeDataFromIssue issuesGet ow rp pr =
     (case body pr of
        Str b \<Rightarrow>
          (case issueMatch b of
             None \<Rightarrow> (Inr pr, [])
           | Some m \<Rightarrow>
               (let issueNumber = at (split (CHR ''#'') m) 1;
                    request = \<lparr>owner = ow, repo = rp, issue_number = issueNumber\<rparr>
                in case issuesGet request of
                     Inl e \<Rightarrow> (Inl e, [request])
                   | Inr None \<Rightarrow> (Inr pr, [request])
                   | Inr (Some d) \<Rightarrow> (Inr (pr\<lparr>body := Str (toString (body d) @ b)\<rparr>), [request])))
      | _ \<Rightarrow> (Inr pr, []))"

section \<open>Categorization\<close>

text \<open>
  The category the loop of \<open>generate\<close> gives a pull request, \<open>None\<close> where the loop skips
  it (\<open>continue\<close>).
\<close>

definition prCategory :: "Issue \<Rightarrow> string option" where
  "prCategory pr =
     (case titleMatch (Issue.title pr) of
        None \<Rightarrow> None
      | Some g \<Rightarrow>
          (case user pr of
             None \<Rightarrow> None
           | Some u \<Rightarrow> Some (if matchTest (Issue.title pr) then ''test'' else toLowerCase g)))"

text \<open>The entry the loop appends to the changelog for a pull request.\<close>

definition prInfo :: "Issue \<Rightarrow> User \<Rightarrow> PRInfo" where
  "prInfo pr u =
     \<lparr>PRInfo.title = Issue.title pr,
      author = \<lparr>username = User.login u, link = User.html_url u\<rparr>,
      number = Issue.number pr,
      link = Issue.html_url pr,
      created_at = None\<rparr>"

text \<open>
  \<open>categorizedPRsMap[category].prs.push(prInfo)\<close>: reading \<open>prs\<close> of a value that is
  not an own entry of the map raises a \<open>TypeError\<close>.
\<close>

definition pushPR :: "PRCategory obj \<Rightarrow> string \<Rightarrow> PRInfo \<Rightarrow> error + PRCategory obj" where
  "pushPR m c info =
     (case getProp m c of
        Own cat \<Rightarrow> Inr (setProp m c (cat\<lparr>prs := prs cat @ [info]\<rparr>))
      | _ \<Rightarrow> Inl (Error ''TypeError''))"

definition ensureCategory :: "PRCategory obj \<Rightarrow> string \<Rightarrow> PRCategory obj" where
  "ensureCategory m c =
     (case getProp m c of
        Absent \<Rightarrow> setProp m c \<lparr>category = c, prs = []\<rparr>
      | _ \<Rightarrow> m)"

text \<open>
  The first loop of \<open>generate\<close>. Iteration \<open>i\<close> reads \<open>prs[i]\<close> and writes only
  \<open>prs[i]\<close>, so the loop is a traversal that returns the rewritten list and the map of
  categories; an error of the enrichment aborts it.
\<close>

fun categorize ::
  "(IssueRequest \<Rightarrow> error + Issue option) \<Rightarrow> string \<Rightarrow> string \<Rightarrow> PRCategory obj \<Rightarrow> Issue list
     \<Rightarrow> error + Issue list \<times> PRCategory obj" where
  "categorize issuesGet ow rp m [] = Inr ([], m)"
| "categorize issuesGet ow rp m (pr # rest) =
     (case prCategory pr of
        None \<Rightarrow>
          (case categorize issuesGet ow rp m rest of
             Inl e \<Rightarrow> Inl e
           | Inr (done, m') \<Rightarrow> Inr (pr # done, m'))
      | Some c \<Rightarrow>
          (case user pr of
             None \<Rightarrow> Inl (Error ''TypeError'')
           | Some u \<Rightarrow>
               (case fst (includeDataFromIssue issuesGet ow rp pr) of
                  Inl e \<Rightarrow> Inl e
                | Inr pr' \<Rightarrow>
                    (case pushPR (ensureCategory m c) c (prInfo pr u) of
                       Inl e \<Rightarrow> Inl e
                     | Inr m1 \<Rightarrow>
                         (case categorize issuesGet ow rp m1 rest of
                            Inl e \<Rightarrow> Inl e
                          | Inr (done, m') \<Rightarrow> Inr (pr' # done, m'))))))"

text \<open>\<open>changelog = Object.values(categorizedPRsMap)\<close>.\<close>

definition changelogOf ::
  "(IssueRequest \<Rightarrow> error + Issue option) \<Rightarrow> string \<Rightarrow> string \<Rightarrow> Issue list
     \<Rightarrow> error + PRCategory list" where
  "changelogOf issuesGet ow rp issues =
     (case categorize issuesGet ow rp [] issues of
        Inl e \<Rightarrow> Inl e
      | Inr (done, m) \<Rightarrow> Inr (objectValues m))"

section \<open>Highlight selection\<close>

text \<open>
  The filter of \<open>generate\<close>:
  \<open>issue.pull_request && ((issue.title.startsWith('feat') ? true : null) ?? issue.title.startsWith('chore'))\<close>,
  whose value \<open>filter\<close> converts to a boolean.
\<close>

definition markerValue :: "PullRequest option \<Rightarrow> jsval" where
  "markerValue m = (case m of None \<Rightarrow> VUndefined | Some _ \<Rightarrow> VObject)"

definition highlightSelected :: "Issue \<Rightarrow> bool" where
  "highlightSelected issue =
     truthy (jsAnd (markerValue (pull_request issue))
       (coalesce (if startsWith (Issue.title issue) ''feat'' then VBool True else VNull)
                 (VBool (startsWith (Issue.title issue) ''chore''))))"

text \<open>The plain disjunction of the specification.\<close>

definition highlightSelected_spec :: "Issue \<Rightarrow> bool" where
  "highlightSelected_spec issue =
     (pull_request issue \<noteq> None \<and>
      (startsWith (Issue.title issue) ''feat'' \<or> startsWith (Issue.title issue) ''chore''))"

definition features :: "Issue list \<Rightarrow> Issue list" where
  "features issues = filter highlightSelected issues"

section \<open>Rendering order of the changelog\<close>

text \<open>
  \<open>generateMD\<close> sorts the changelog with a comparator that subtracts priorities:
  \<open>indexOf\<close> in \<open>['feat', 'fix', 'chore']\<close>, or \<open>Infinity\<close> for \<open>-1\<close>.
\<close>

definition priorityOrder :: "string list" where
  "priorityOrder = [''feat'', ''fix'', ''chore'']"

fun indexOf :: "string list \<Rightarrow> string \<Rightarrow> int" where
  "indexOf [] x = -1"
| "indexOf (y # ys) x =
     (if y = x then 0 else (let i = indexOf ys x in if i = -1 then -1 else i + 1))"

datatype priority = Index int | Infinity

definition priorityOf :: "string \<Rightarrow> priority" where
  "priorityOf c =
     (if indexOf priorityOrder c = -1 then Infinity else Index (indexOf priorityOrder c))"

text \<open>The difference of two priorities: \<open>Infinity - Infinity\<close> is NaN.\<close>

datatype difference = Finite int | PlusInfinity | MinusInfinity | NotANumber

fun subtract :: "priority \<Rightarrow> priority \<Rightarrow> difference" where
  "subtract (Index a) (Index b) = Finite (a - b)"
| "subtract Infinity (Index b) = PlusInfinity"
| "subtract (Index a) Infinity = MinusInfinity"
| "subtract Infinity Infinity = NotANumber"

definition compareCategories :: "PRCategory \<Rightarrow> PRCategory \<Rightarrow> difference" where
  "compareCategories a b = subtract (priorityOf (category a)) (priorityOf (category b))"

text \<open>
  \<open>toSorted\<close> is a stable sort. It reads a comparator result \<open>v\<close> as \<open>v > 0\<close>
  (the first argument goes after the second), a NaN counting as zero. The comparator above
  is consistent, so the result is the one stable insertion gives.
\<close>

fun isPositive :: "difference \<Rightarrow> bool" where
  "isPositive (Finite d) = (0 < d)"
| "isPositive PlusInfinity = True"
| "isPositive MinusInfinity = False"
| "isPositive NotANumber = False"

fun insertSorted :: "('a \<Rightarrow> 'a \<Rightarrow> difference) \<Rightarrow> 'a \<Rightarrow> 'a list \<Rightarrow> 'a list" where
  "insertSorted cmp x [] = [x]"
| "insertSorted cmp x (y # ys) =
     (if isPositive (cmp x y) then y # insertSorted cmp x ys else x # y # ys)"

definition toSorted :: "('a \<Rightarrow> 'a \<Rightarrow> difference) \<Rightarrow> 'a list \<Rightarrow> 'a list" where
  "toSorted cmp xs = foldr (insertSorted cmp) xs []"

definition sortedChangelog :: "PRCategory list \<Rightarrow> PRCategory list" where
  "sortedChangelog changelog = toSorted compareCategories changelog"

text \<open>The rank of a category name in the rendering order of the specification.\<close>

definition rank :: "string \<Rightarrow> nat" where
  "rank c = (if c = ''feat'' then 0 else if c = ''fix'' then 1 else if c = ''chore'' then 2 else 3)"

section \<open>Fetching the pull requests of a milestone\<close>

record Milestone =
  title :: string
  number :: int

record ListRequest =
  owner :: string
  repo :: string
  milestone :: string
  state :: string
  per_page :: int
  page :: int

text \<open>\<open>number.toString()\<close> of an integer.\<close>

fun showNat :: "nat \<Rightarrow> string" where
  "showNat n =
     (if n < 10 then [char_of (48 + n)] else showNat (n div 10) @ [char_of (48 + n mod 10)])"

definition showInt :: "int \<Rightarrow> string" where
  "showInt i = (if i < 0 then CHR ''-'' # showNat (nat (- i)) else showNat (nat i))"







section \<open>Highlights from the language-model service\<close>

text \<open>
  The values read from the response: what \<open>JSON.parse\<close> can return, and \<open>undefined\<close>,
  which reading a missing property gives.
\<close>

datatype jvalue =
    JUndefined
  | JNull
  | JBool bool
  | JNumber int
  | JString string
  | JArray "jvalue list"
  | JObject "(string \<times> jvalue) list"

text \<open>
  \<open>v.name\<close> for the names the source reads (\<open>response\<close>, \<open>choices\<close>, \<open>message\<close>,
  \<open>content\<close>, \<open>prs\<close>; no built-in prototype has a member of these names): a
  \<open>TypeError\<close> on \<open>undefined\<close> and \<open>null\<close>, the own property of an object, and
  \<open>undefined\<close> otherwise.
\<close>

fun getMember :: "jvalue \<Rightarrow> string \<Rightarrow> error + jvalue" where
  "getMember JUndefined n = Inl (Error ''TypeError'')"
| "getMember JNull n = Inl (Error ''TypeError'')"
| "getMember (JObject kvs) n = Inr (case map_of kvs n of Some v \<Rightarrow> v | None \<Rightarrow> JUndefined)"
| "getMember v n = Inr JUndefined"

text \<open>\<open>v[0]\<close>: the first element of an array, the first character of a string.\<close>

fun getFirst :: "jvalue \<Rightarrow> error + jvalue" where
  "getFirst JUndefined = Inl (Error ''TypeError'')"
| "getFirst JNull = Inl (Error ''TypeError'')"
| "getFirst (JArray xs) = Inr (case xs of [] \<Rightarrow> JUndefined | x # _ \<Rightarrow> x)"
| "getFirst (JString s) = Inr (case s of [] \<Rightarrow> JUndefined | c # _ \<Rightarrow> JString [c])"
| "getFirst (JObject kvs) = Inr (case map_of kvs ''0'' of Some v \<Rightarrow> v | None \<Rightarrow> JUndefined)"
| "getFirst v = Inr JUndefined"

text \<open>Sequencing of steps that may throw.\<close>

definition andThen :: "error + 'a \<Rightarrow> ('a \<Rightarrow> error + 'b) \<Rightarrow> error + 'b" where
  "andThen r f = (case r of Inl e \<Rightarrow> Inl e | Inr v \<Rightarrow> f v)"

record Response =
  ok :: bool
  status :: int
  json :: "error + jvalue"

record Config =
  token :: string
  organization :: string
  repo :: string
  milestone :: string
  username :: string
  model :: "string option"
  port :: string
  endpoint :: string
  useOllama :: bool

text \<open>
  The request: the URL and the body. The prompt is a fixed text followed by the content, so
  the body is represented by the content and, for Ollama, the model.
\<close>

datatype requestBody = OllamaBody "string option" string | ChatBody string

record Request =
  url :: string
  requestBody :: requestBody

definition requestOf :: "Config \<Rightarrow> string \<Rightarrow> Request" where
  "requestOf cfg content =
     \<lparr>url = ''http://localhost:'' @ port cfg @ endpoint cfg,
      requestBody = (if useOllama cfg then OllamaBody (model cfg) content else ChatBody content)\<rparr>"

text \<open>
  The body of the \<open>try\<close> block. \<open>parse\<close> stands for \<open>JSON.parse\<close> applied to a value
  (which it first converts to a string); \<open>json response\<close> is the outcome of
  \<open>response.json()\<close>.
\<close>

definition parsedPRs :: "Config \<Rightarrow> (jvalue \<Rightarrow> error + jvalue) \<Rightarrow> Response \<Rightarrow> error + jvalue" where
  "parsedPRs cfg parse response =
     (if useOllama cfg then
        andThen (andThen (andThen (json response)
          (\<lambda>j. getMember j ''response'')) parse) (\<lambda>p. getMember p ''prs'')
      else
        andThen (andThen (andThen (andThen (andThen (andThen (json response)
          (\<lambda>j. getMember j ''choices'')) getFirst) (\<lambda>c. getMember c ''message''))
          (\<lambda>m. getMember m ''content'')) parse) (\<lambda>p. getMember p ''prs''))"

text \<open>
  \<open>fetchDataFromService\<close>: the value the returned promise resolves to. \<open>fetch\<close> fails
  (\<open>Inl\<close>) on a network error, which the final \<open>catch\<close> turns into \<open>[]\<close>; the
  diagnostics written to the console are not modelled.
\<close>

definition fetchDataFromService ::
  "Config \<Rightarrow> (Request \<Rightarrow> error + Response) \<Rightarrow> (jvalue \<Rightarrow> error + jvalue) \<Rightarrow> string \<Rightarrow> jvalue" where
  "fetchDataFromService cfg fetch parse content =
     (case fetch (requestOf cfg content) of
        Inl e \<Rightarrow> JArray []
      | Inr response \<Rightarrow>
          if \<not> ok response then JArray []
          else (case parsedPRs cfg parse response of
                  Inl e \<Rightarrow> JArray []
                | Inr v \<Rightarrow> v))"

section \<open>Fixtures of the test suite\<close>

definition createMockIssue ::
  "int \<Rightarrow> string \<Rightarrow> string \<Rightarrow> string \<Rightarrow> string \<Rightarrow> string \<Rightarrow> string \<Rightarrow> string \<Rightarrow> Issue" where
  "createMockIssue ident ttl userLogin userHtmlUrl htmlUrl createdAt bdy userType =
     \<lparr>Issue.number = ident, title = ttl,
      user = Some \<lparr>User.login = userLogin, html_url = userHtmlUrl, type = userType\<rparr>,
      html_url = htmlUrl, created_at = createdAt, body = Str bdy,
      pull_request =
        Some \<lparr>PullRequest.url = ''https://api.github.com/repos/owner/repo/pulls/'' @ showInt ident,
              html_url = htmlUrl\<rparr>\<rparr>"

definition createMockContributor :: "string \<Rightarrow> int \<Rightarrow> Contributor" where
  "createMockContributor l n = \<lparr>Contributor.login = Some l, contributions = n\<rparr>"


definition prNew1 :: Issue where
  "prNew1 = createMockIssue 201 ''feat: First PR'' ''newUser'' ''urlNew'' ''htmlNew''
     ''2023-02-01T10:00:00Z'' ''Body for PR 201'' ''User''"

definition prNew2 :: Issue where
  "prNew2 = createMockIssue 202 ''fix: Older PR'' ''newUser'' ''urlNew'' ''htmlNew''
     ''2023-02-01T09:00:00Z'' ''Body for PR 202'' ''User''"

definition linkedIssue :: Issue where
  "linkedIssue = createMockIssue 123 ''Linked'' ''userY'' ''urlY'' ''htmlY'' ''2023-03-01Z''
     ''Issue body.'' ''User''"

definition prCloses :: Issue where
  "prCloses = createMockIssue 401 ''feat: X'' ''userX'' ''urlX'' ''htmlX'' ''2023-04-01Z''
     ''Closes #123. PR body.'' ''User''"


definition prFeatUpper :: Issue where
  "prFeatUpper = createMockIssue 502 ''Feat: x'' ''userA'' ''urlA'' ''htmlA''
     ''2023-05-01T00:00:00Z'' ''Body for PR 502'' ''User''"

definition prFeatTest :: Issue where
  "prFeatTest = createMockIssue 503 ''Feat(test): x'' ''userA'' ''urlA'' ''htmlA''
     ''2023-05-01T00:00:00Z'' ''Body for PR 503'' ''User''"

definition prConstructor :: Issue where
  "prConstructor = createMockIssue 601 ''feat: A1'' ''constructor'' ''urlC'' ''htmlC''
     ''2023-03-01T00:00:00Z'' ''Body for PR 601'' ''User''"




definition testConfig :: Config where
  "testConfig =
     \<lparr>token = ''test-token'', organization = ''test-org'', repo = ''test-repo'',
      milestone = ''1.0.0'', username = ''test-user'', model = Some ''test-model'',
      port = ''12345'', endpoint = ''/api/test'', useOllama = False\<rparr>"

definition chatReply :: "string \<Rightarrow> jvalue" where
  "chatReply content =
     JObject [(''choices'', JArray [JObject [(''message'', JObject [(''content'', JString content)])]])]"

definition okResponse :: "jvalue \<Rightarrow> Response" where
  "okResponse j = \<lparr>ok = True, status = 200, json = Inr j\<rparr>"

definition parseEmptyObject :: "jvalue \<Rightarrow> error + jvalue" where
  "parseEmptyObject v = (if v = JString ''{}'' then Inr (JObject []) else Inl (Error ''SyntaxError''))"

definition entries :: "PRCategory obj \<Rightarrow> (string \<times> PRInfo) set" where
  "entries m = {(c, info). \<exists>cat. map_of m c = Some cat \<and> info \<in> set (prs cat)}"

definition wellKeyed :: "PRCategory obj \<Rightarrow> bool" where
  "wellKeyed m =
     (distinct (map fst m) \<and>
      (\<forall>k cat. map_of m k = Some cat \<longrightarrow> category cat = k \<and> k \<notin> set objectPrototypeKeys))"

definition prTwoReferences :: Issue where
  "prTwoReferences = createMockIssue 402 ''fix: Y'' ''userX'' ''urlX'' ''htmlX'' ''2023-04-02Z''
     ''Fixes #42 and closes #7'' ''User''"

definition prNoReference :: Issue where
  "prNoReference = createMockIssue 403 ''feat: X'' ''userX'' ''urlX'' ''htmlX'' ''2023-04-01Z''
     ''ABCD PR body.'' ''User''"

text \<open>An issue without a description: the API sends its body as \<open>null\<close>.\<close>

definition issueWithoutBody :: Issue where
  "issueWithoutBody = linkedIssue\<lparr>body := Null\<rparr>"

section \<open>Notions of the specification\<close>

definition lowerLetter :: "char \<Rightarrow> bool" where
  "lowerLetter c = (97 \<le> (of_char c :: nat) \<and> (of_char c :: nat) \<le> 122)"

definition keyword :: "string \<Rightarrow> bool" where
  "keyword k = (k \<noteq> [] \<and> list_all lowerLetter k)"

text \<open>
  The title, after optional leading white space, begins with the keyword \<open>k\<close> up to the
  case of the letters.
\<close>

definition startsWithKeyword :: "string \<Rightarrow> string \<Rightarrow> bool" where
  "startsWithKeyword k t =
     (\<exists>ws p rest. t = ws @ p @ rest \<and> list_all isWhiteSpace ws \<and>
        map canonicalize p = map canonicalize k)"

text \<open>The text \<open>p\<close> occurs in \<open>s\<close> up to the case of the letters.\<close>

definition containsCI :: "string \<Rightarrow> string \<Rightarrow> bool" where
  "containsCI p s =
     (\<exists>pre m post. s = pre @ m @ post \<and> map canonicalize m = map canonicalize p)"

text \<open>
  \<open>m\<close> is a reference to the issue number \<open>ds\<close>: \<open>Closes\<close> or \<open>Fixes\<close> in any case,
  one white-space character, a hash sign, and the digits \<open>ds\<close>.
\<close>

definition issueReference :: "string \<Rightarrow> string \<Rightarrow> bool" where
  "issueReference ds m =
     (\<exists>kw w. m = kw @ [w] @ ''#'' @ ds \<and>
        (map canonicalize kw = map canonicalize ''Closes'' \<or>
         map canonicalize kw = map canonicalize ''Fixes'') \<and>
        isWhiteSpace w \<and> ds \<noteq> [] \<and> list_all isDigit ds)"

definition bodyMatches :: "string \<Rightarrow> bool" where
  "bodyMatches b = (\<exists>pre ds m post. b = pre @ m @ post \<and> issueReference ds m)"

definition total :: "jsnum obj \<Rightarrow> int" where
  "total m = sum_list (map (\<lambda>p. case snd p of Num n \<Rightarrow> n | NaN \<Rightarrow> 0) m)"

definition authorLogin :: "Issue \<Rightarrow> string" where
  "authorLogin issue = (case user issue of None \<Rightarrow> [] | Some u \<Rightarrow> User.login u)"

definition counted :: "Issue \<Rightarrow> bool" where
  "counted issue =
     (pull_request issue \<noteq> None \<and>
      (case user issue of None \<Rightarrow> False | Some u \<Rightarrow> User.login u \<noteq> []))"

section \<open>Properties\<close>

subsection \<open>Characters and the matchers\<close>

lemma of_char_lt: "(of_char c :: nat) < 256"
  by (cases c) simp

lemma canonicalize_lowerLetter:
  "lowerLetter p \<Longrightarrow> canonicalize p = char_of ((of_char p :: nat) - 32)"
  by (simp add: canonicalize_def lowerLetter_def)

lemma small_mod: "n \<le> 122 \<Longrightarrow> (n - 32) mod 256 = n - (32::nat)"
  by (rule mod_less) arith

lemma canon_lower:
  assumes p: "lowerLetter p" and eq: "canonicalize c = canonicalize p"
  shows "toLowerChar c = p"
proof -
  define nc :: nat where "nc = of_char c"
  define np :: nat where "np = of_char p"
  have np: "97 \<le> np" "np \<le> 122" using p by (simp_all add: lowerLetter_def np_def)
  have nc: "nc < 256" by (simp add: nc_def of_char_lt)
  have cp: "canonicalize p = char_of (np - 32)"
    using p by (simp add: canonicalize_lowerLetter np_def)
  show ?thesis
  proof (cases "97 \<le> nc \<and> nc \<le> 122")
    case True
    then have "canonicalize c = char_of (nc - 32)"
      by (simp add: canonicalize_def nc_def)
    with eq cp have "(nc - 32) mod 256 = (np - 32) mod 256"
      by (simp add: char_of_quasi_inj)
    moreover have "(nc - 32) mod 256 = nc - 32" "(np - 32) mod 256 = np - 32"
      using True np by (simp_all add: small_mod)
    ultimately have "nc = np" using True np by linarith
    then have "c = p" by (simp add: nc_def np_def)
    moreover have "toLowerChar p = p" using np by (simp add: toLowerChar_def np_def Let_def)
    ultimately show ?thesis by simp
  next
    case False
    then have "canonicalize c = c" by (auto simp add: canonicalize_def nc_def Let_def)
    with eq cp have c: "c = char_of (np - 32)" by simp
    then have "nc = (np - 32) mod 256" by (simp add: nc_def of_char_of)
    moreover have "(np - 32) mod 256 = np - 32" using np by (simp add: small_mod)
    ultimately have n: "nc = np - 32" by simp
    have "65 \<le> nc \<and> nc \<le> 90" using n np by arith
    then have "toLowerChar c = char_of (nc + 32)"
      by (simp add: toLowerChar_def Let_def nc_def[symmetric])
    also have "nc + 32 = np" using n np by arith
    then have "char_of (nc + 32) = char_of np" by simp
    also have "\<dots> = p" by (simp add: np_def)
    finally show ?thesis .
  qed
qed

lemma isWhiteSpace_code: "isWhiteSpace c \<Longrightarrow> (of_char c :: nat) \<in> {9, 10, 11, 12, 13, 32, 160}"
  by (auto simp add: isWhiteSpace_def)

lemma canonicalize_whitespace: "isWhiteSpace c \<Longrightarrow> canonicalize c = c"
  by (auto simp add: isWhiteSpace_def canonicalize_def)

lemma ws_canon:
  assumes "isWhiteSpace c" "lowerLetter p"
  shows "canonicalize c \<noteq> canonicalize p"
proof
  assume "canonicalize c = canonicalize p"
  with assms have "c = char_of ((of_char p :: nat) - 32)"
    by (simp add: canonicalize_whitespace canonicalize_lowerLetter)
  then have "(of_char c :: nat) = ((of_char p :: nat) - 32) mod 256"
    by (simp add: of_char_of)
  moreover have "((of_char p :: nat) - 32) mod 256 = (of_char p :: nat) - 32"
    using assms(2) by (simp add: lowerLetter_def small_mod)
  ultimately have "65 \<le> (of_char c :: nat) \<and> (of_char c :: nat) \<le> 90"
    using assms(2) unfolding lowerLetter_def by arith
  with isWhiteSpace_code[OF assms(1)] show False by auto
qed



lemma literalCI_iff:
  "literalCI k s \<longleftrightarrow>
     length k \<le> length s \<and> map canonicalize (take (length k) s) = map canonicalize k"
  by (induction k s rule: literalCI.induct) auto

lemma literalCI_append:
  "literalCI k s \<longleftrightarrow> (\<exists>p rest. s = p @ rest \<and> map canonicalize p = map canonicalize k)"
proof
  assume "literalCI k s"
  then have "s = take (length k) s @ drop (length k) s \<and>
             map canonicalize (take (length k) s) = map canonicalize k"
    by (simp add: literalCI_iff)
  then show "\<exists>p rest. s = p @ rest \<and> map canonicalize p = map canonicalize k" by blast
next
  assume "\<exists>p rest. s = p @ rest \<and> map canonicalize p = map canonicalize k"
  then obtain p rest where s: "s = p @ rest" and m: "map canonicalize p = map canonicalize k"
    by blast
  from m have "length p = length k" by (rule map_eq_imp_length_eq)
  with s m show "literalCI k s" by (simp add: literalCI_iff)
qed

lemma firstMatch_None: "firstMatch f xs = None \<longleftrightarrow> (\<forall>x \<in> set xs. f x = None)"
  by (induction xs) (auto split: option.splits)

lemma firstMatch_Some: "firstMatch f xs = Some y \<Longrightarrow> \<exists>x \<in> set xs. f x = Some y"
  by (induction xs) (auto split: option.splits)

lemma keyword_categoryKeywords: "k \<in> set categoryKeywords \<Longrightarrow> keyword k"
  by (auto simp add: categoryKeywords_def keyword_def lowerLetter_def)

lemma literalCI_whitespace:
  assumes "keyword k" "isWhiteSpace c"
  shows "\<not> literalCI k (c # cs)"
proof -
  from assms(1) obtain p ps where k: "k = p # ps" and p: "lowerLetter p"
    by (cases k) (auto simp add: keyword_def)
  from ws_canon[OF assms(2) p] show ?thesis by (simp add: k)
qed

lemma categoryGroup_None:
  "categoryGroup s = None \<longleftrightarrow> (\<forall>k \<in> set categoryKeywords. \<not> literalCI k s)"
  by (auto simp add: categoryGroup_def firstMatch_None)

lemma categoryGroup_Some:
  "categoryGroup s = Some g \<Longrightarrow>
     \<exists>k \<in> set categoryKeywords. literalCI k s \<and> g = take (length k) s"
  by (auto simp add: categoryGroup_def dest!: firstMatch_Some split: if_splits)

lemma categoryGroup_whitespace: "isWhiteSpace c \<Longrightarrow> categoryGroup (c # cs) = None"
  by (simp add: categoryGroup_None literalCI_whitespace keyword_categoryKeywords)

lemma titleMatch_dropWhile: "titleMatch t = categoryGroup (dropWhile isWhiteSpace t)"
proof (induction t)
  case Nil
  show ?case by simp
next
  case (Cons c cs)
  show ?case
  proof (cases "isWhiteSpace c")
    case True
    with Cons show ?thesis
      by (cases "categoryGroup (dropWhile isWhiteSpace cs)")
         (simp_all add: categoryGroup_whitespace)
  next
    case False
    then show ?thesis by simp
  qed
qed

lemma toLowerCase_group:
  "list_all lowerLetter k \<Longrightarrow> literalCI k s \<Longrightarrow> toLowerCase (take (length k) s) = k"
  by (induction k s rule: literalCI.induct) (auto simp add: toLowerCase_def canon_lower)

lemma startsWithKeyword_iff:
  assumes "keyword k"
  shows "startsWithKeyword k t \<longleftrightarrow> literalCI k (dropWhile isWhiteSpace t)"
proof
  assume "startsWithKeyword k t"
  then obtain ws p rest where t: "t = ws @ p @ rest" and ws: "list_all isWhiteSpace ws"
    and p: "map canonicalize p = map canonicalize k"
    by (auto simp add: startsWithKeyword_def)
  have lit: "literalCI k (p @ rest)" using p by (auto simp add: literalCI_append)
  have "dropWhile isWhiteSpace (p @ rest) = p @ rest"
  proof (cases "p @ rest")
    case Nil
    then show ?thesis by simp
  next
    case (Cons c cs)
    with lit literalCI_whitespace[OF assms] have "\<not> isWhiteSpace c" by auto
    with Cons show ?thesis by simp
  qed
  moreover have "dropWhile isWhiteSpace t = dropWhile isWhiteSpace (p @ rest)"
    using ws unfolding t by (simp add: list_all_iff dropWhile_append2)
  ultimately show "literalCI k (dropWhile isWhiteSpace t)" using lit by simp
next
  assume "literalCI k (dropWhile isWhiteSpace t)"
  then obtain p rest where d: "dropWhile isWhiteSpace t = p @ rest"
    and p: "map canonicalize p = map canonicalize k"
    by (auto simp add: literalCI_append)
  have "t = takeWhile isWhiteSpace t @ p @ rest"
    using d by (metis takeWhile_dropWhile_id)
  moreover have "list_all isWhiteSpace (takeWhile isWhiteSpace t)"
    by (auto simp add: list_all_iff dest: set_takeWhileD)
  ultimately show "startsWithKeyword k t"
    using p unfolding startsWithKeyword_def by blast
qed


lemma titleMatch_Some:
  assumes "titleMatch t = Some g"
  shows "\<exists>k \<in> set categoryKeywords. startsWithKeyword k t \<and> toLowerCase g = k"
proof -
  from assms obtain k where k: "k \<in> set categoryKeywords"
    and lit: "literalCI k (dropWhile isWhiteSpace t)"
    and g: "g = take (length k) (dropWhile isWhiteSpace t)"
    using categoryGroup_Some by (auto simp add: titleMatch_dropWhile)
  have "toLowerCase g = k"
    using keyword_categoryKeywords[OF k] lit unfolding g keyword_def
    by (simp add: toLowerCase_group)
  with k lit show ?thesis
    using startsWithKeyword_iff[OF keyword_categoryKeywords[OF k]] by blast
qed

lemma searchCI_iff: "searchCI p s \<longleftrightarrow> containsCI p s"
proof (induction s)
  case Nil
  show ?case by (auto simp add: containsCI_def literalCI_append)
next
  case (Cons c cs)
  note IH = Cons.IH
  show ?case
  proof
    assume "searchCI p (c # cs)"
    then consider "literalCI p (c # cs)" | "containsCI p cs" using Cons by auto
    then show "containsCI p (c # cs)"
    proof cases
      case 1
      then obtain m post where "c # cs = [] @ m @ post" "map canonicalize m = map canonicalize p"
        by (auto simp add: literalCI_append)
      then show ?thesis unfolding containsCI_def by blast
    next
      case 2
      then obtain pre m post where "cs = pre @ m @ post" "map canonicalize m = map canonicalize p"
        by (auto simp add: containsCI_def)
      then have "c # cs = (c # pre) @ m @ post" by simp
      with \<open>map canonicalize m = map canonicalize p\<close> show ?thesis
        unfolding containsCI_def by blast
    qed
  next
    assume "containsCI p (c # cs)"
    then obtain pre m post where s: "c # cs = pre @ m @ post"
      and m: "map canonicalize m = map canonicalize p"
      by (auto simp add: containsCI_def)
    show "searchCI p (c # cs)"
    proof (cases pre)
      case Nil
      with s m have "literalCI p (c # cs)" by (auto simp add: literalCI_append)
      then show ?thesis by simp
    next
      case (Cons a pre')
      with s have "cs = pre' @ m @ post" by simp
      with m have "containsCI p cs" unfolding containsCI_def by blast
      with IH show ?thesis by simp
    qed
  qed
qed



lemma takeWhile_maximal:
  "takeWhile P xs = ds \<longleftrightarrow>
     (\<exists>post. xs = ds @ post \<and> list_all P ds \<and> (post = [] \<or> \<not> P (hd post)))"
proof
  assume t: "takeWhile P xs = ds"
  have "xs = ds @ dropWhile P xs" using t by (metis takeWhile_dropWhile_id)
  moreover have "list_all P ds" using t by (auto simp add: list_all_iff dest: set_takeWhileD)
  moreover have "dropWhile P xs = [] \<or> \<not> P (hd (dropWhile P xs))"
    by (metis hd_dropWhile)
  ultimately show "\<exists>post. xs = ds @ post \<and> list_all P ds \<and> (post = [] \<or> \<not> P (hd post))"
    by blast
next
  assume "\<exists>post. xs = ds @ post \<and> list_all P ds \<and> (post = [] \<or> \<not> P (hd post))"
  then obtain post where xs: "xs = ds @ post" and ds: "list_all P ds"
    and post: "post = [] \<or> \<not> P (hd post)" by blast
  have "takeWhile P post = []" using post by (cases post) auto
  with ds show "takeWhile P xs = ds" unfolding xs by (simp add: list_all_iff takeWhile_append2)
qed

lemma issueRefTail_Some:
  "issueRefTail k s = Some m \<longleftrightarrow>
     (\<exists>kw w ds post. s = kw @ [w] @ ''#'' @ ds @ post \<and> m = kw @ [w] @ ''#'' @ ds \<and>
        length kw = k \<and> isWhiteSpace w \<and> ds \<noteq> [] \<and> list_all isDigit ds \<and>
        (post = [] \<or> \<not> isDigit (hd post)))"
  (is "?L \<longleftrightarrow> ?R")
proof
  assume ?L
  then obtain w h rest where d: "drop k s = w # h # rest" and w: "isWhiteSpace w"
    and h: "h = CHR ''#''" and ne: "takeWhile isDigit rest \<noteq> []"
    and m: "m = take (k + 2) s @ takeWhile isDigit rest"
    by (auto simp add: issueRefTail_def split: list.splits if_splits)
  define ds where "ds = takeWhile isDigit rest"
  from takeWhile_maximal[THEN iffD1, OF ds_def[symmetric]]
  obtain post where rest: "rest = ds @ post" and dig: "list_all isDigit ds"
    and post: "post = [] \<or> \<not> isDigit (hd post)" by blast
  have k: "length (take k s) = k" using d by (cases "k \<le> length s") auto
  have s: "s = take k s @ [w] @ ''#'' @ ds @ post"
    using d h rest by (metis append_take_drop_id append_Cons append_Nil)
  have "take (k + 2) s = take k s @ take 2 (drop k s)"
    by (simp only: take_add)
  then have "take (k + 2) s = take k s @ [w] @ ''#''"
    using d h by simp
  with m have "m = take k s @ [w] @ ''#'' @ ds" by (simp add: ds_def)
  with s k w ne dig post show ?R unfolding ds_def[symmetric] by blast
next
  assume ?R
  then obtain kw w ds post where s: "s = kw @ [w] @ ''#'' @ ds @ post"
    and m: "m = kw @ [w] @ ''#'' @ ds" and k: "length kw = k" and w: "isWhiteSpace w"
    and ne: "ds \<noteq> []" and dig: "list_all isDigit ds"
    and post: "post = [] \<or> \<not> isDigit (hd post)" by blast
  have "takeWhile isDigit (ds @ post) = ds"
    using dig post by (auto simp add: takeWhile_maximal)
  with s m k w ne show ?L by (simp add: issueRefTail_def)
qed



lemma canonicalize_literals:
  "map canonicalize ''Closes'' = ''CLOSES''" "map canonicalize ''Fixes'' = ''FIXES''"
  "canonicalize CHR ''#'' = CHR ''#''"
  by code_simp+

lemma C_not_F: "canonicalize CHR ''C'' \<noteq> canonicalize CHR ''F''"
  by code_simp

lemma closes_not_fixes: "\<not> (literalCI ''Closes'' s \<and> literalCI ''Fixes'' s)"
proof (cases s)
  case Nil
  then show ?thesis by simp
next
  case (Cons c cs)
  show ?thesis
  proof
    assume "literalCI ''Closes'' s \<and> literalCI ''Fixes'' s"
    then have "canonicalize CHR ''C'' = canonicalize CHR ''F''"
      unfolding Cons by auto
    with C_not_F show False by simp
  qed
qed

lemma issueRefAt_unfold:
  "issueRefAt s =
     (if literalCI ''Closes'' s then issueRefTail (length ''Closes'') s
      else if literalCI ''Fixes'' s then issueRefTail (length ''Fixes'') s else None)"
  unfolding issueRefAt_def firstMatch.simps
  using closes_not_fixes[of s]
  by (cases "literalCI ''Closes'' s"; cases "literalCI ''Fixes'' s";
      simp split: option.splits)

lemma all_le_Suc: "(\<forall>i \<le> Suc n. P i) \<longleftrightarrow> P 0 \<and> (\<forall>i \<le> n. P (Suc i))"
proof
  assume "\<forall>i \<le> Suc n. P i"
  then show "P 0 \<and> (\<forall>i \<le> n. P (Suc i))" by simp
next
  assume a: "P 0 \<and> (\<forall>i \<le> n. P (Suc i))"
  show "\<forall>i \<le> Suc n. P i"
  proof (intro allI impI)
    fix i assume "i \<le> Suc n"
    with a show "P i" by (cases i) simp_all
  qed
qed

lemma issueMatch_None: "issueMatch b = None \<longleftrightarrow> (\<forall>i \<le> length b. issueRefAt (drop i b) = None)"
proof (induction b)
  case Nil
  show ?case by simp
next
  case (Cons c cs)
  have "(\<forall>i \<le> length (c # cs). issueRefAt (drop i (c # cs)) = None) \<longleftrightarrow>
        issueRefAt (c # cs) = None \<and> (\<forall>i \<le> length cs. issueRefAt (drop i cs) = None)"
    by (simp add: all_le_Suc)
  with Cons show ?case by (simp split: option.splits)
qed

lemma keyword_no_hash:
  assumes "map canonicalize kw = map canonicalize ''Closes'' \<or>
           map canonicalize kw = map canonicalize ''Fixes''"
  shows "CHR ''#'' \<notin> set kw"
proof
  assume "CHR ''#'' \<in> set kw"
  then have "canonicalize CHR ''#'' \<in> set (map canonicalize kw)" by simp
  with assms show False unfolding canonicalize_literals by auto
qed



lemma hash_not_digit: "\<not> isDigit CHR ''#''"
  by (simp add: isDigit_def)
lemma hash_not_space: "\<not> isWhiteSpace CHR ''#''"
  by (simp add: isWhiteSpace_def)
lemma isDigit_not_hash: "list_all isDigit ds \<Longrightarrow> CHR ''#'' \<notin> set ds"
  using hash_not_digit by (auto simp add: list_all_iff)
lemma ws_not_hash: "isWhiteSpace w \<Longrightarrow> w \<noteq> CHR ''#''"
  using hash_not_space by auto
lemma split_append: "sep \<notin> set xs \<Longrightarrow> split sep (xs @ sep # ys) = xs # split sep ys"
  by (induction xs) auto



lemma split_no_sep: "sep \<notin> set xs \<Longrightarrow> split sep xs = [xs]"
  by (induction xs) auto



lemma issueRefAt_Some:
  "issueRefAt s = Some m \<longleftrightarrow>
     (\<exists>ds post. s = m @ post \<and> issueReference ds m \<and> (post = [] \<or> \<not> isDigit (hd post)))"
  (is "?L \<longleftrightarrow> ?R")
proof
  assume L: ?L
  have "\<exists>k0. (k0 = ''Closes'' \<or> k0 = ''Fixes'') \<and> literalCI k0 s \<and>
          issueRefTail (length k0) s = Some m"
  proof (cases "literalCI ''Closes'' s")
    case True
    with L have "issueRefTail (length ''Closes'') s = Some m"
      by (simp only: issueRefAt_unfold if_True)
    with True show ?thesis by blast
  next
    case False
    with L have *: "(if literalCI ''Fixes'' s then issueRefTail (length ''Fixes'') s else None) = Some m"
      by (simp only: issueRefAt_unfold if_False)
    then have f: "literalCI ''Fixes'' s" by (cases "literalCI ''Fixes'' s") simp_all
    with * have "issueRefTail (length ''Fixes'') s = Some m" by (simp only: if_True)
    with f show ?thesis by blast
  qed
  then obtain k0 where k0: "k0 = ''Closes'' \<or> k0 = ''Fixes''" and lit: "literalCI k0 s"
    and tl: "issueRefTail (length k0) s = Some m"
    by blast
  from tl obtain kw w ds post where s: "s = kw @ [w] @ ''#'' @ ds @ post"
    and m: "m = kw @ [w] @ ''#'' @ ds" and len: "length kw = length k0"
    and rest: "isWhiteSpace w" "ds \<noteq> []" "list_all isDigit ds" "post = [] \<or> \<not> isDigit (hd post)"
    unfolding issueRefTail_Some by blast
  from lit len s have "map canonicalize kw = map canonicalize k0"
    by (simp add: literalCI_iff)
  with k0 m rest have "issueReference ds m" unfolding issueReference_def by blast
  moreover have "s = m @ post" using s m by simp
  ultimately show ?R using rest(4) by blast
next
  assume ?R
  then obtain ds post kw w where s: "s = m @ post" and m: "m = kw @ [w] @ ''#'' @ ds"
    and kw: "map canonicalize kw = map canonicalize ''Closes'' \<or>
             map canonicalize kw = map canonicalize ''Fixes''"
    and rest: "isWhiteSpace w" "ds \<noteq> []" "list_all isDigit ds" "post = [] \<or> \<not> isDigit (hd post)"
    unfolding issueReference_def by blast
  have s': "s = kw @ [w] @ ''#'' @ ds @ post" using s m by simp
  from kw show ?L
  proof
    assume c: "map canonicalize kw = map canonicalize ''Closes''"
    then have len: "length kw = length ''Closes''" by (rule map_eq_imp_length_eq)
    have "literalCI ''Closes'' s" using c s' by (auto simp add: literalCI_append)
    moreover have "issueRefTail (length ''Closes'') s = Some m"
      unfolding issueRefTail_Some using s' m len rest by blast
    ultimately show ?L by (simp only: issueRefAt_unfold if_True)
  next
    assume c: "map canonicalize kw = map canonicalize ''Fixes''"
    then have len: "length kw = length ''Fixes''" by (rule map_eq_imp_length_eq)
    have f: "literalCI ''Fixes'' s" using c s' by (auto simp add: literalCI_append)
    then have "\<not> literalCI ''Closes'' s" using closes_not_fixes by blast
    moreover have "issueRefTail (length ''Fixes'') s = Some m"
      unfolding issueRefTail_Some using s' m len rest by blast
    ultimately show ?L using f by (simp only: issueRefAt_unfold if_True if_False)
  qed
qed



lemma issueMatch_Some:
  "issueMatch b = Some m \<longleftrightarrow>
     (\<exists>n \<le> length b. issueRefAt (drop n b) = Some m \<and> (\<forall>i < n. issueRefAt (drop i b) = None))"
proof (induction b)
  case Nil
  show ?case by simp
next
  case (Cons c cs)
  show ?case
  proof (cases "issueRefAt (c # cs)")
    case (Some m')
    have "(\<exists>n \<le> length (c # cs). issueRefAt (drop n (c # cs)) = Some m \<and>
             (\<forall>i < n. issueRefAt (drop i (c # cs)) = None)) \<longleftrightarrow> m' = m"
    proof
      assume "\<exists>n \<le> length (c # cs). issueRefAt (drop n (c # cs)) = Some m \<and>
             (\<forall>i < n. issueRefAt (drop i (c # cs)) = None)"
      then obtain n where n: "issueRefAt (drop n (c # cs)) = Some m"
        "\<forall>i < n. issueRefAt (drop i (c # cs)) = None" by blast
      have "n = 0"
      proof (rule ccontr)
        assume "n \<noteq> 0"
        then have "issueRefAt (drop 0 (c # cs)) = None" using n(2) by blast
        with Some show False by simp
      qed
      with n(1) Some show "m' = m" by simp
    next
      assume "m' = m"
      with Some have "issueRefAt (drop 0 (c # cs)) = Some m \<and>
        (\<forall>i < (0::nat). issueRefAt (drop i (c # cs)) = None)" by simp
      then show "\<exists>n \<le> length (c # cs). issueRefAt (drop n (c # cs)) = Some m \<and>
             (\<forall>i < n. issueRefAt (drop i (c # cs)) = None)" by blast
    qed
    with Some show ?thesis by simp
  next
    case None
    have "(\<exists>n \<le> length (c # cs). issueRefAt (drop n (c # cs)) = Some m \<and>
             (\<forall>i < n. issueRefAt (drop i (c # cs)) = None)) \<longleftrightarrow>
          (\<exists>n \<le> length cs. issueRefAt (drop n cs) = Some m \<and>
             (\<forall>i < n. issueRefAt (drop i cs) = None))"
    proof
      assume "\<exists>n \<le> length (c # cs). issueRefAt (drop n (c # cs)) = Some m \<and>
             (\<forall>i < n. issueRefAt (drop i (c # cs)) = None)"
      then obtain n where n: "n \<le> length (c # cs)" "issueRefAt (drop n (c # cs)) = Some m"
        "\<forall>i < n. issueRefAt (drop i (c # cs)) = None" by blast
      with None obtain n' where n': "n = Suc n'" by (cases n) auto
      have "\<forall>i < n'. issueRefAt (drop i cs) = None"
      proof (intro allI impI)
        fix i assume "i < n'"
        then have "Suc i < n" using n' by simp
        with n(3) have "issueRefAt (drop (Suc i) (c # cs)) = None" by blast
        then show "issueRefAt (drop i cs) = None" by simp
      qed
      with n n' show "\<exists>n \<le> length cs. issueRefAt (drop n cs) = Some m \<and>
             (\<forall>i < n. issueRefAt (drop i cs) = None)" by auto
    next
      assume "\<exists>n \<le> length cs. issueRefAt (drop n cs) = Some m \<and>
             (\<forall>i < n. issueRefAt (drop i cs) = None)"
      then obtain n where n: "n \<le> length cs" "issueRefAt (drop n cs) = Some m"
        "\<forall>i < n. issueRefAt (drop i cs) = None" by blast
      have "\<forall>i < Suc n. issueRefAt (drop i (c # cs)) = None"
      proof (intro allI impI)
        fix i assume i: "i < Suc n"
        show "issueRefAt (drop i (c # cs)) = None"
        proof (cases i)
          case 0
          with None show ?thesis by simp
        next
          case (Suc j)
          with i n(3) show ?thesis by simp
        qed
      qed
      moreover have "Suc n \<le> length (c # cs)" "issueRefAt (drop (Suc n) (c # cs)) = Some m"
        using n by simp_all
      ultimately show "\<exists>n \<le> length (c # cs). issueRefAt (drop n (c # cs)) = Some m \<and>
             (\<forall>i < n. issueRefAt (drop i (c # cs)) = None)" by blast
    qed
    with None Cons show ?thesis by simp
  qed
qed



lemma issueReference_number:
  assumes "issueReference ds m"
  shows "at (split (CHR ''#'') m) 1 = Str ds"
proof -
  from assms obtain kw w where m: "m = kw @ [w] @ ''#'' @ ds"
    and kw: "map canonicalize kw = map canonicalize ''Closes'' \<or>
             map canonicalize kw = map canonicalize ''Fixes''"
    and w: "isWhiteSpace w" and ds: "list_all isDigit ds"
    unfolding issueReference_def by blast
  have "w \<noteq> CHR ''#''" using w by (rule ws_not_hash)
  with keyword_no_hash[OF kw] have "CHR ''#'' \<notin> set (kw @ [w])" by simp
  then have "split (CHR ''#'') ((kw @ [w]) @ CHR ''#'' # ds) = (kw @ [w]) # split (CHR ''#'') ds"
    by (rule split_append)
  also have "split (CHR ''#'') ds = [ds]" using isDigit_not_hash[OF ds] by (rule split_no_sep)
  finally show ?thesis by (simp add: m at_def)
qed

subsection \<open>\<open>isNewContributor\<close>\<close>

text \<open>
  Claim C2. For every user name and every pair of count maps, \<open>isNewContributor\<close> returns
  true if and only if the milestone count of the user equals the lifetime count and both are
  greater than zero; a user absent from a map counts as zero there.
\<close>

theorem isNewContributor_iff:
  "isNewContributor uname contributorsMap milestoneCommits \<longleftrightarrow>
     countOf milestoneCommits uname = countOf contributorsMap uname \<and>
     0 < countOf contributorsMap uname \<and> 0 < countOf milestoneCommits uname"
proof (cases "map_of contributorsMap uname")
  case None
  then show ?thesis
    by (cases "map_of milestoneCommits uname")
       (auto simp: isNewContributor_def getProp_def countOf_def split: jsnum.splits)
next
  case (Some a)
  then show ?thesis
    by (cases a; cases "map_of milestoneCommits uname")
       (auto simp: isNewContributor_def getProp_def countOf_def split: jsnum.splits)
qed

subsection \<open>Highlight selection\<close>

text \<open>
  Claim C9. The selection predicate of the source (a ternary giving \<open>true\<close> or \<open>null\<close>,
  coalesced with the chore test) equals the plain disjunction: an issue is selected if and
  only if it has a pull-request marker and its title starts with \<open>feat\<close> or with \<open>chore\<close>.
\<close>

theorem highlightSelected_refines:
  "highlightSelected issue = highlightSelected_spec issue"
  by (cases "pull_request issue")
     (simp_all add: highlightSelected_def highlightSelected_spec_def markerValue_def jsAnd_def)

subsection \<open>Enrichment, categorization and the case of letters\<close>

lemma bodyMatches_iff: "bodyMatches b \<longleftrightarrow> issueMatch b \<noteq> None"
proof
  assume "bodyMatches b"
  then obtain pre ds m post kw w where b: "b = pre @ m @ post"
    and m: "m = kw @ [w] @ ''#'' @ ds"
    and kw: "map canonicalize kw = map canonicalize ''Closes'' \<or>
             map canonicalize kw = map canonicalize ''Fixes''"
    and w: "isWhiteSpace w" and ne: "ds \<noteq> []" and dig: "list_all isDigit ds"
    unfolding bodyMatches_def issueReference_def by blast
  define ds' where "ds' = ds @ takeWhile isDigit post"
  define m' where "m' = kw @ [w] @ ''#'' @ ds'"
  have "issueReference ds' m'"
    unfolding issueReference_def m'_def ds'_def using kw w ne dig
    by (auto simp add: list_all_iff dest: set_takeWhileD)
  moreover have "dropWhile isDigit post = [] \<or> \<not> isDigit (hd (dropWhile isDigit post))"
    by (metis hd_dropWhile)
  moreover have "drop (length pre) b = m' @ dropWhile isDigit post"
    unfolding b m m'_def ds'_def by simp
  ultimately have "issueRefAt (drop (length pre) b) = Some m'"
    unfolding issueRefAt_Some by blast
  moreover have "length pre \<le> length b" unfolding b by simp
  ultimately have "\<not> (\<forall>i \<le> length b. issueRefAt (drop i b) = None)" by force
  then show "issueMatch b \<noteq> None" by (simp add: issueMatch_None)
next
  assume "issueMatch b \<noteq> None"
  then obtain i where i: "i \<le> length b" "issueRefAt (drop i b) \<noteq> None"
    by (auto simp add: issueMatch_None)
  then obtain m ds post where "drop i b = m @ post" "issueReference ds m"
    by (auto simp add: issueRefAt_Some)
  then have "b = take i b @ m @ post \<and> issueReference ds m"
    by (metis append_take_drop_id)
  then show "bodyMatches b" unfolding bodyMatches_def by blast
qed

lemma issueMatch_leftmost:
  assumes b: "b = pre @ m @ post" and ref: "issueReference ds m"
    and mx: "post = [] \<or> \<not> isDigit (hd post)"
    and left: "\<forall>pre' m' post' ds'. b = pre' @ m' @ post' \<and> issueReference ds' m'
                 \<longrightarrow> length pre \<le> length pre'"
  shows "issueMatch b = Some m"
proof -
  have here: "issueRefAt (drop (length pre) b) = Some m"
    unfolding issueRefAt_Some using b ref mx by auto
  have before: "\<forall>i < length pre. issueRefAt (drop i b) = None"
  proof (intro allI impI)
    fix i assume i: "i < length pre"
    show "issueRefAt (drop i b) = None"
    proof (rule ccontr)
      assume "issueRefAt (drop i b) \<noteq> None"
      then obtain m' ds' post' where "drop i b = m' @ post'" "issueReference ds' m'"
        by (auto simp add: issueRefAt_Some)
      then have "b = take i b @ m' @ post' \<and> issueReference ds' m'"
        by (metis append_take_drop_id)
      with left have "length pre \<le> length (take i b)" by blast
      with i show False by simp
    qed
  qed
  have "length pre \<le> length b" unfolding b by simp
  with here before show ?thesis unfolding issueMatch_Some by blast
qed

text \<open>
  The enrichment when the linked issue has a body. When the body of the pull request holds
  a reference \<open>m\<close> to the issue number \<open>ds\<close> (all its digits, and no reference
  starts further left), and the request for that
  issue answers with an issue whose body is the text \<open>ib\<close>, \<open>includeDataFromIssue\<close>
  returns the pull request with the body \<open>ib\<close> followed at once by the old body, after
  that one request. When the body is missing or matches nowhere, the pull request is returned
  as it is and no request is made. In every case the fields other than the body are those of
  the pull request.
\<close>

theorem includeDataFromIssue_spec:
  "(body pr = Str b \<and> b = pre @ m @ post \<and> issueReference ds m \<and>
    (post = [] \<or> \<not> isDigit (hd post)) \<and>
    (\<forall>pre' m' post' ds'. b = pre' @ m' @ post' \<and> issueReference ds' m'
        \<longrightarrow> length pre \<le> length pre') \<and>
    issuesGet \<lparr>IssueRequest.owner = ow, repo = rp, issue_number = Str ds\<rparr> = Inr (Some d) \<and>
    body d = Str ib
    \<longrightarrow> includeDataFromIssue issuesGet ow rp pr =
          (Inr (pr\<lparr>body := Str (ib @ b)\<rparr>),
           [\<lparr>IssueRequest.owner = ow, repo = rp, issue_number = Str ds\<rparr>])) \<and>
   ((\<forall>t. body pr = Str t \<longrightarrow> \<not> bodyMatches t)
    \<longrightarrow> includeDataFromIssue issuesGet ow rp pr = (Inr pr, [])) \<and>
   (\<forall>pr'. fst (includeDataFromIssue issuesGet ow rp pr) = Inr pr'
    \<longrightarrow> pr'\<lparr>body := body pr\<rparr> = pr)"
proof (intro conjI impI allI)
  assume a: "body pr = Str b \<and> b = pre @ m @ post \<and> issueReference ds m \<and>
    (post = [] \<or> \<not> isDigit (hd post)) \<and>
    (\<forall>pre' m' post' ds'. b = pre' @ m' @ post' \<and> issueReference ds' m'
        \<longrightarrow> length pre \<le> length pre') \<and>
    issuesGet \<lparr>IssueRequest.owner = ow, repo = rp, issue_number = Str ds\<rparr> = Inr (Some d) \<and>
    body d = Str ib"
  then have "issueMatch b = Some m" using issueMatch_leftmost by blast
  moreover have "at (split (CHR ''#'') m) 1 = Str ds"
    using a issueReference_number by blast
  ultimately show "includeDataFromIssue issuesGet ow rp pr =
          (Inr (pr\<lparr>body := Str (ib @ b)\<rparr>),
           [\<lparr>IssueRequest.owner = ow, repo = rp, issue_number = Str ds\<rparr>])"
    using a by (simp add: includeDataFromIssue_def)
next
  assume "\<forall>t. body pr = Str t \<longrightarrow> \<not> bodyMatches t"
  then show "includeDataFromIssue issuesGet ow rp pr = (Inr pr, [])"
    by (cases "body pr") (simp_all add: includeDataFromIssue_def bodyMatches_iff)
next
  fix pr'
  assume "fst (includeDataFromIssue issuesGet ow rp pr) = Inr pr'"
  then show "pr'\<lparr>body := body pr\<rparr> = pr"
    by (auto simp add: includeDataFromIssue_def Let_def
             split: jsstr.splits option.splits sum.splits)
qed

text \<open>
  The runs of the test suite (\<open>Closes #123\<close> with an issue whose body is
  \<open>Issue body.\<close>, and a body without a reference), and a body with two references, of
  which the first is fetched.
\<close>

theorem includeDataFromIssue_witness:
  "issueReference ''123'' ''Closes #123'' \<and>
   includeDataFromIssue (\<lambda>r. Inr (Some linkedIssue)) ''test-org'' ''test-repo'' prCloses =
     (Inr (prCloses\<lparr>body := Str ''Issue body.Closes #123. PR body.''\<rparr>),
      [\<lparr>IssueRequest.owner = ''test-org'', repo = ''test-repo'', issue_number = Str ''123''\<rparr>]) \<and>
   issueReference ''42'' ''Fixes #42'' \<and> issueReference ''7'' ''closes #7'' \<and>
   includeDataFromIssue (\<lambda>r. Inr (Some linkedIssue)) ''test-org'' ''test-repo'' prTwoReferences =
     (Inr (prTwoReferences\<lparr>body := Str ''Issue body.Fixes #42 and closes #7''\<rparr>),
      [\<lparr>IssueRequest.owner = ''test-org'', repo = ''test-repo'', issue_number = Str ''42''\<rparr>]) \<and>
   \<not> bodyMatches ''ABCD PR body.'' \<and>
   includeDataFromIssue (\<lambda>r. Inr (Some linkedIssue)) ''test-org'' ''test-repo'' prNoReference =
     (Inr prNoReference, [])"
proof -
  have ref: "issueReference ''123'' ''Closes #123''"
    unfolding issueReference_def
    by (rule exI[of _ "''Closes''"], rule exI[of _ "CHR '' ''"])
       (simp add: isWhiteSpace_def isDigit_def)
  have pre: "body prCloses = Str ''Closes #123. PR body.'' \<and>
    ''Closes #123. PR body.'' = [] @ ''Closes #123'' @ ''. PR body.'' \<and>
    issueReference ''123'' ''Closes #123'' \<and>
    (''. PR body.'' = [] \<or> \<not> isDigit (hd ''. PR body.'')) \<and>
    (\<forall>pre' m' post' ds'. ''Closes #123. PR body.'' = pre' @ m' @ post' \<and> issueReference ds' m'
        \<longrightarrow> length ([] :: string) \<le> length pre') \<and>
    (\<lambda>r. Inr (Some linkedIssue) :: error + Issue option)
       \<lparr>IssueRequest.owner = ''test-org'', repo = ''test-repo'', issue_number = Str ''123''\<rparr>
       = Inr (Some linkedIssue) \<and>
    body linkedIssue = Str ''Issue body.''"
    using ref by (simp add: prCloses_def linkedIssue_def createMockIssue_def isDigit_def)
  from includeDataFromIssue_spec[where pr = prCloses and b = "''Closes #123. PR body.''"
      and pre = "[]" and m = "''Closes #123''" and post = "''. PR body.''" and ds = "''123''"
      and issuesGet = "\<lambda>r. Inr (Some linkedIssue)" and ow = "''test-org''"
      and rp = "''test-repo''" and d = linkedIssue and ib = "''Issue body.''"] pre
  have 1: "includeDataFromIssue (\<lambda>r. Inr (Some linkedIssue)) ''test-org'' ''test-repo'' prCloses =
     (Inr (prCloses\<lparr>body := Str (''Issue body.'' @ ''Closes #123. PR body.'')\<rparr>),
      [\<lparr>IssueRequest.owner = ''test-org'', repo = ''test-repo'', issue_number = Str ''123''\<rparr>])"
    by blast
  have ref42: "issueReference ''42'' ''Fixes #42''"
    unfolding issueReference_def
    by (rule exI[of _ "''Fixes''"], rule exI[of _ "CHR '' ''"])
       (simp add: isWhiteSpace_def isDigit_def)
  have c7: "map canonicalize ''closes'' = map canonicalize ''Closes''" by code_simp
  have ref7: "issueReference ''7'' ''closes #7''"
    unfolding issueReference_def
    by (rule exI[of _ "''closes''"], rule exI[of _ "CHR '' ''"])
       (simp add: isWhiteSpace_def isDigit_def c7 del: list.map)
  have pre2: "body prTwoReferences = Str ''Fixes #42 and closes #7'' \<and>
    ''Fixes #42 and closes #7'' = [] @ ''Fixes #42'' @ '' and closes #7'' \<and>
    issueReference ''42'' ''Fixes #42'' \<and>
    ('' and closes #7'' = [] \<or> \<not> isDigit (hd '' and closes #7'')) \<and>
    (\<forall>pre' m' post' ds'. ''Fixes #42 and closes #7'' = pre' @ m' @ post' \<and>
        issueReference ds' m' \<longrightarrow> length ([] :: string) \<le> length pre') \<and>
    (\<lambda>r. Inr (Some linkedIssue) :: error + Issue option)
       \<lparr>IssueRequest.owner = ''test-org'', repo = ''test-repo'', issue_number = Str ''42''\<rparr>
       = Inr (Some linkedIssue) \<and>
    body linkedIssue = Str ''Issue body.''"
    using ref42
    by (simp add: prTwoReferences_def linkedIssue_def createMockIssue_def isDigit_def)
  from includeDataFromIssue_spec[where pr = prTwoReferences and b = "''Fixes #42 and closes #7''"
      and pre = "[]" and m = "''Fixes #42''" and post = "'' and closes #7''" and ds = "''42''"
      and issuesGet = "\<lambda>r. Inr (Some linkedIssue)" and ow = "''test-org''"
      and rp = "''test-repo''" and d = linkedIssue and ib = "''Issue body.''"] pre2
  have 2: "includeDataFromIssue (\<lambda>r. Inr (Some linkedIssue)) ''test-org'' ''test-repo''
      prTwoReferences =
     (Inr (prTwoReferences\<lparr>body := Str (''Issue body.'' @ ''Fixes #42 and closes #7'')\<rparr>),
      [\<lparr>IssueRequest.owner = ''test-org'', repo = ''test-repo'', issue_number = Str ''42''\<rparr>])"
    by blast
  have "issueMatch ''ABCD PR body.'' = None" by code_simp
  then have no: "\<not> bodyMatches ''ABCD PR body.''" by (simp add: bodyMatches_iff)
  have "body prNoReference = Str ''ABCD PR body.''"
    by (simp add: prNoReference_def createMockIssue_def)
  with no have "\<forall>t. body prNoReference = Str t \<longrightarrow> \<not> bodyMatches t" by simp
  with includeDataFromIssue_spec[where pr = prNoReference
      and issuesGet = "\<lambda>r. Inr (Some linkedIssue)" and ow = "''test-org''"
      and rp = "''test-repo''"]
  have 3: "includeDataFromIssue (\<lambda>r. Inr (Some linkedIssue)) ''test-org'' ''test-repo''
      prNoReference = (Inr prNoReference, [])"
    by blast
  from ref 1 ref42 ref7 2 no 3 show ?thesis by simp
qed

lemma highlightSelected_iff:
  "highlightSelected issue \<longleftrightarrow>
     pull_request issue \<noteq> None \<and>
     (startsWith (Issue.title issue) ''feat'' \<or> startsWith (Issue.title issue) ''chore'')"
  by (cases "pull_request issue")
     (simp_all add: highlightSelected_def markerValue_def jsAnd_def)

lemma titleMatch_chore:
  assumes "map canonicalize p = map canonicalize ''chore''"
  shows "titleMatch (p @ rest) = Some p"
proof -
  have lit: "literalCI ''chore'' (p @ rest)" using assms by (auto simp add: literalCI_append)
  have len: "length p = length ''chore''" using assms by (rule map_eq_imp_length_eq)
  have kw: "keyword ''chore''" by (simp add: keyword_categoryKeywords categoryKeywords_def)
  have "dropWhile isWhiteSpace (p @ rest) = p @ rest"
  proof (cases "p @ rest")
    case Nil
    then show ?thesis by simp
  next
    case (Cons c cs)
    with lit literalCI_whitespace[OF kw] have "\<not> isWhiteSpace c" by auto
    with Cons show ?thesis by simp
  qed
  moreover have "categoryGroup (p @ rest) = Some (take (length ''chore'') (p @ rest))"
    using lit by (simp add: categoryGroup_def categoryKeywords_def)
  ultimately show ?thesis using len by (simp add: titleMatch_dropWhile)
qed

lemma c_not_f: "canonicalize CHR ''c'' \<noteq> canonicalize CHR ''f''"
  by code_simp

lemma titleMatch_feat:
  assumes "map canonicalize p = map canonicalize ''feat''"
  shows "titleMatch (p @ rest) = Some p"
proof -
  have lit: "literalCI ''feat'' (p @ rest)" using assms by (auto simp add: literalCI_append)
  have len: "length p = length ''feat''" using assms by (rule map_eq_imp_length_eq)
  have kw: "keyword ''feat''" by (simp add: keyword_categoryKeywords categoryKeywords_def)
  obtain c cs where p: "p = c # cs" using len by (cases p) auto
  have c: "canonicalize c = canonicalize CHR ''f''" using assms unfolding p by simp
  have "\<not> isWhiteSpace c" using lit literalCI_whitespace[OF kw] unfolding p by auto
  then have "dropWhile isWhiteSpace (p @ rest) = p @ rest" unfolding p by simp
  moreover have "\<not> literalCI ''chore'' (p @ rest)"
    using c c_not_f unfolding p by simp
  then have "categoryGroup (p @ rest) = Some (take (length ''feat'') (p @ rest))"
    using lit by (simp add: categoryGroup_def categoryKeywords_def)
  ultimately show ?thesis using len by (simp add: titleMatch_dropWhile)
qed

lemma startsWith_same:
  assumes "startsWith (p @ rest) k" "length p = length k"
  shows "p = k"
  using assms by (auto simp add: startsWith_def prefix_def)

lemma startsWith_other:
  assumes "startsWith (p @ rest) (q # qs)" "map canonicalize p = map canonicalize (a # as)"
  shows "canonicalize q = canonicalize a"
proof -
  from assms(2) obtain c cs where p: "p = c # cs" by (cases p) auto
  with assms(1) have "c = q" by (auto simp add: startsWith_def prefix_def)
  with assms(2) p show ?thesis by simp
qed

lemma matchTest_iff: "matchTest t \<longleftrightarrow> containsCI ''(test'' t"
  by (simp add: matchTest_def searchCI_iff)



text \<open>
  Claim C10, amended. For a pull request with an author whose title begins with a variant of
  \<open>feat\<close> or \<open>chore\<close> that differs from it in the case of a letter, the
  categorizer gives the lower-case prefix as the category, or \<open>test\<close> when the title
  contains \<open>(test\<close>, and the highlight selection leaves the pull request out.
\<close>

theorem case_disagreement:
  assumes "user pr = Some u" and "k = ''feat'' \<or> k = ''chore''"
    and "Issue.title pr = p @ rest" and "map canonicalize p = map canonicalize k"
    and "p \<noteq> k"
  shows "prCategory pr = Some (if containsCI ''(test'' (Issue.title pr) then ''test'' else k) \<and>
         \<not> highlightSelected pr"
proof -
  have len: "length p = length k" using assms(4) by (rule map_eq_imp_length_eq)
  have kw: "list_all lowerLetter k" using assms(2) by (auto simp add: lowerLetter_def)
  have tm: "titleMatch (Issue.title pr) = Some p"
    using assms(2,3,4) titleMatch_feat titleMatch_chore by auto
  have lit: "literalCI k (p @ rest)" using assms(4) by (auto simp add: literalCI_append)
  have "toLowerCase (take (length k) (p @ rest)) = k"
    using kw lit by (rule toLowerCase_group)
  then have low: "toLowerCase p = k" using len by simp
  have cat: "prCategory pr = Some (if containsCI ''(test'' (Issue.title pr) then ''test'' else k)"
    using tm low assms(1) by (simp add: prCategory_def matchTest_iff)
  have same: "\<not> startsWith (Issue.title pr) k"
    using startsWith_same[of p rest k] len assms(3,5) by auto
  have other: "\<not> startsWith (Issue.title pr) (if k = ''feat'' then ''chore'' else ''feat'')"
  proof
    assume s: "startsWith (Issue.title pr) (if k = ''feat'' then ''chore'' else ''feat'')"
    from assms(2) show False
    proof
      assume k: "k = ''feat''"
      with s assms(3,4) startsWith_other[of p rest "CHR ''c''" "''hore''" "CHR ''f''" "''eat''"]
      have "canonicalize CHR ''c'' = canonicalize CHR ''f''" by simp
      with c_not_f show False by simp
    next
      assume k: "k = ''chore''"
      with s assms(3,4) startsWith_other[of p rest "CHR ''f''" "''eat''" "CHR ''c''" "''hore''"]
      have "canonicalize CHR ''f'' = canonicalize CHR ''c''" by simp
      with c_not_f show False by simp
    qed
  qed
  from same other assms(2) have "\<not> highlightSelected pr"
    by (auto simp add: highlightSelected_iff)
  with cat show ?thesis by simp
qed

text \<open>The title \<open>Feat: x\<close>.\<close>

theorem case_disagreement_witness:
  "prCategory prFeatUpper = Some ''feat'' \<and> \<not> highlightSelected prFeatUpper"
proof -
  have "\<not> matchTest (Issue.title prFeatUpper)" by code_simp
  then have n: "\<not> containsCI ''(test'' (Issue.title prFeatUpper)" by (simp add: matchTest_iff)
  have c: "map canonicalize ''Feat'' = map canonicalize ''feat''" by code_simp
  have "user prFeatUpper = Some \<lparr>User.login = ''userA'', html_url = ''urlA'', type = ''User''\<rparr>"
    "Issue.title prFeatUpper = ''Feat'' @ '': x''" "''Feat'' \<noteq> ''feat''"
    by (simp_all add: prFeatUpper_def createMockIssue_def)
  from case_disagreement[OF this(1) _ this(2) c this(3)] n show ?thesis by simp
qed

text \<open>
  The claim as first stated fails on \<open>Feat(test): x\<close>: the title begins with a variant of
  \<open>feat\<close>, and the category is \<open>test\<close>, not \<open>feat\<close>.
\<close>

theorem case_disagreement_counterexample:
  "user prFeatTest \<noteq> None \<and> Issue.title prFeatTest = ''Feat'' @ ''(test): x'' \<and>
   map canonicalize ''Feat'' = map canonicalize ''feat'' \<and> ''Feat'' \<noteq> ''feat'' \<and>
   prCategory prFeatTest = Some ''test'' \<and> prCategory prFeatTest \<noteq> Some ''feat''"
proof -
  have "map canonicalize ''Feat'' = map canonicalize ''feat''" by code_simp
  moreover have c: "prCategory prFeatTest = Some ''test''" by code_simp
  moreover have "user prFeatTest \<noteq> None \<and> Issue.title prFeatTest = ''Feat'' @ ''(test): x''"
    by (simp add: prFeatTest_def createMockIssue_def)
  ultimately show ?thesis by simp
qed

subsection \<open>First-time contributors, counts and the rendering order\<close>

text \<open>
  Claim C1. The run of the test suite: two pull requests of the first-time contributor
  \<open>newUser\<close>, created at 09:00 and at 10:00. One entry is retained, and in either order
  of the input it is the one created at 10:00, the later of the two: the comparison of the
  source replaces the stored entry when the new one is later, against its comment
  \<open>Get only the oldest one\<close>.
\<close>

theorem getFirstTimeContributors_keeps_latest:
  "isoTime (Issue.created_at prNew2) = Some 1675242000000 \<and>
   isoTime (Issue.created_at prNew1) = Some 1675245600000 \<and>
   getFirstTimeContributors isoTime [createMockContributor ''newUser'' 2] [prNew2, prNew1] =
     [\<lparr>PRInfo.title = ''feat: First PR'',
       author = \<lparr>Author.username = ''newUser'', link = ''urlNew''\<rparr>,
       number = 201, link = ''htmlNew'', created_at = Some ''2023-02-01T10:00:00Z''\<rparr>] \<and>
   getFirstTimeContributors isoTime [createMockContributor ''newUser'' 2] [prNew1, prNew2] =
     [\<lparr>PRInfo.title = ''feat: First PR'',
       author = \<lparr>Author.username = ''newUser'', link = ''urlNew''\<rparr>,
       number = 201, link = ''htmlNew'', created_at = Some ''2023-02-01T10:00:00Z''\<rparr>]"
  by code_simp

text \<open>
  Claim C8. One pull request of the user \<open>constructor\<close>: the lookup in the empty
  object yields the inherited \<open>Object.prototype.constructor\<close>, which is truthy, so the
  count is not set to zero and the increment stores NaN, not 1.
\<close>

theorem getMilestonePRs_constructor:
  "getMilestonePRs [prConstructor] = [(''constructor'', NaN)]"
  by code_simp

lemma isPositive_compare:
  "isPositive (compareCategories a b) \<longleftrightarrow> rank (category b) < rank (category a)"
  by (simp add: compareCategories_def priorityOf_def priorityOrder_def rank_def)

lemma insertSorted_insort:
  "insertSorted compareCategories x ys = insort_key (\<lambda>c. rank (category c)) x ys"
  by (induction ys) (simp_all add: isPositive_compare not_less)

lemma sortedChangelog_sort_key:
  "sortedChangelog changelog = sort_key (\<lambda>c. rank (category c)) changelog"
proof -
  have "insertSorted compareCategories = insort_key (\<lambda>c. rank (category c))"
    by (intro ext) (rule insertSorted_insort)
  then show ?thesis by (simp add: sortedChangelog_def toSorted_def sort_key_def)
qed

lemma sorted_four_way:
  fixes f :: "'a \<Rightarrow> nat"
  assumes "sorted (map f ys)" "\<forall>x \<in> set ys. f x < 4"
  shows "ys = filter (\<lambda>x. f x = 0) ys @ filter (\<lambda>x. f x = 1) ys @
              filter (\<lambda>x. f x = 2) ys @ filter (\<lambda>x. f x = 3) ys"
  using assms
proof (induction ys)
  case Nil
  show ?case by simp
next
  case (Cons y ys)
  then have IH: "ys = filter (\<lambda>x. f x = 0) ys @ filter (\<lambda>x. f x = 1) ys @
              filter (\<lambda>x. f x = 2) ys @ filter (\<lambda>x. f x = 3) ys"
    and le: "\<forall>z \<in> set ys. f y \<le> f z" and y: "f y < 4"
    by simp_all
  from y consider "f y = 0" | "f y = 1" | "f y = 2" | "f y = 3" by linarith
  then show ?case
  proof cases
    case 1
    then show ?thesis using IH by simp
  next
    case 2
    with le have "filter (\<lambda>x. f x = 0) ys = []" by (auto simp add: filter_empty_conv)
    with 2 IH show ?thesis by simp
  next
    case 3
    with le have "filter (\<lambda>x. f x = 0) ys = []" "filter (\<lambda>x. f x = 1) ys = []"
      by (auto simp add: filter_empty_conv)
    with 3 IH show ?thesis by simp
  next
    case 4
    with le have "filter (\<lambda>x. f x = 0) ys = []" "filter (\<lambda>x. f x = 1) ys = []"
      "filter (\<lambda>x. f x = 2) ys = []"
      by (auto simp add: filter_empty_conv)
    with 4 IH show ?thesis by simp
  qed
qed

lemma rank_cases:
  "rank c = 0 \<longleftrightarrow> c = ''feat''" "rank c = 1 \<longleftrightarrow> c = ''fix''" "rank c = 2 \<longleftrightarrow> c = ''chore''"
  "rank c = 3 \<longleftrightarrow> c \<noteq> ''feat'' \<and> c \<noteq> ''fix'' \<and> c \<noteq> ''chore''" "rank c < 4"
  "rank c = Suc 0 \<longleftrightarrow> c = ''fix''"
  by (simp_all add: rank_def)

text \<open>
  Claim C7. The sorted changelog is the categories named \<open>feat\<close>, then those named
  \<open>fix\<close>, then those named \<open>chore\<close>, then all others, each group in the order of
  the input.
\<close>

theorem sortedChangelog_order:
  "sortedChangelog changelog =
     filter (\<lambda>c. category c = ''feat'') changelog @
     filter (\<lambda>c. category c = ''fix'') changelog @
     filter (\<lambda>c. category c = ''chore'') changelog @
     filter (\<lambda>c. category c \<noteq> ''feat'' \<and> category c \<noteq> ''fix'' \<and> category c \<noteq> ''chore'')
       changelog"
proof -
  define f where "f = (\<lambda>c :: PRCategory. rank (category c))"
  define ys where "ys = sort_key f changelog"
  have "sorted (map f ys)" "\<forall>x \<in> set ys. f x < 4"
    by (simp_all add: ys_def f_def rank_cases)
  then have "ys = filter (\<lambda>x. f x = 0) ys @ filter (\<lambda>x. f x = 1) ys @
              filter (\<lambda>x. f x = 2) ys @ filter (\<lambda>x. f x = 3) ys"
    by (rule sorted_four_way)
  also have "\<dots> = filter (\<lambda>x. f x = 0) changelog @ filter (\<lambda>x. f x = 1) changelog @
              filter (\<lambda>x. f x = 2) changelog @ filter (\<lambda>x. f x = 3) changelog"
    unfolding ys_def by (simp only: sort_key_stable)
  finally show ?thesis
    by (simp add: sortedChangelog_sort_key ys_def[symmetric] f_def[symmetric])
       (simp add: f_def rank_cases)
qed

subsection \<open>Fetching the pull requests of a milestone\<close>





subsection \<open>Highlights from the language-model service\<close>

lemma fetchDataFromService_rejected:
  "fetch (requestOf cfg content) = Inl e \<Longrightarrow> fetchDataFromService cfg fetch parse content = JArray []"
  by (simp add: fetchDataFromService_def)

lemma fetchDataFromService_not_ok:
  "fetch (requestOf cfg content) = Inr response \<Longrightarrow> \<not> ok response \<Longrightarrow>
     fetchDataFromService cfg fetch parse content = JArray []"
  by (simp add: fetchDataFromService_def)

lemma fetchDataFromService_throws:
  "fetch (requestOf cfg content) = Inr response \<Longrightarrow> parsedPRs cfg parse response = Inl e \<Longrightarrow>
     fetchDataFromService cfg fetch parse content = JArray []"
  by (simp add: fetchDataFromService_def)

lemma parsedPRs_invalid_body:
  "json response = Inl e \<Longrightarrow> parsedPRs cfg parse response = Inl e"
  by (simp add: parsedPRs_def andThen_def)

lemma fetchDataFromService_chat:
  assumes "\<not> useOllama cfg" "fetch (requestOf cfg content) = Inr response" "ok response"
    and "json response = Inr (chatReply text)" "parse (JString text) = Inr (JObject kvs)"
    and "map_of kvs ''prs'' = Some (JArray highlights)"
  shows "fetchDataFromService cfg fetch parse content = JArray highlights"
  using assms by (simp add: fetchDataFromService_def parsedPRs_def andThen_def chatReply_def)

lemma fetchDataFromService_ollama:
  assumes "useOllama cfg" "fetch (requestOf cfg content) = Inr response" "ok response"
    and "json response = Inr (JObject [(''response'', JString text)])"
    and "parse (JString text) = Inr (JObject kvs)"
    and "map_of kvs ''prs'' = Some (JArray highlights)"
  shows "fetchDataFromService cfg fetch parse content = JArray highlights"
  using assms by (simp add: fetchDataFromService_def parsedPRs_def andThen_def)

text \<open>
  Claim C5. A successful response whose content is the JSON text \<open>{}\<close>: the content
  is valid JSON but has no \<open>prs\<close>, nothing throws, and the call returns \<open>undefined\<close>,
  not the empty list. The lemmas before this one cover the other cases of the claim, where
  the code does return the parsed array or the empty list.
\<close>

theorem fetchDataFromService_missing_prs:
  "fetchDataFromService testConfig (\<lambda>r. Inr (okResponse (chatReply ''{}''))) parseEmptyObject
     ''PR1: ...'' = JUndefined"
  by (simp add: fetchDataFromService_def parsedPRs_def andThen_def chatReply_def okResponse_def
        parseEmptyObject_def testConfig_def)

subsection \<open>Counts of \<open>getMilestonePRs\<close> for ordinary user names\<close>

lemma proto_not_member: "k \<notin> set objectPrototypeKeys \<Longrightarrow> k \<noteq> ''__proto__''"
  by (auto simp add: objectPrototypeKeys_def)

lemma countPR_update:
  assumes "k \<notin> set objectPrototypeKeys"
  shows "countPR m k = AList.update k (Num (countOf m k + 1)) m"
proof (cases "map_of m k")
  case None
  with assms show ?thesis
    by (simp add: countPR_def getProp_def setProp_def countOf_def proto_not_member
          update_conv' Let_def)
next
  case (Some v)
  with assms show ?thesis
    by (cases v)
       (simp_all add: countPR_def getProp_def setProp_def countOf_def proto_not_member
          update_conv' Let_def)
qed

lemma countOf_update:
  "countOf (AList.update k (Num n) m) k' = (if k' = k then n else countOf m k')"
  by (simp add: countOf_def update_conv')

lemma total_update: "total (AList.update k (Num (countOf m k + 1)) m) = total m + 1"
proof (induction m)
  case Nil
  show ?case by (simp add: total_def countOf_def)
next
  case (Cons p m)
  obtain a b where p: "p = (a, b)" by (cases p)
  show ?case
  proof (cases "a = k")
    case True
    then show ?thesis by (cases b) (simp_all add: p total_def countOf_def)
  next
    case False
    then have "countOf (p # m) k = countOf m k" by (simp add: p countOf_def)
    with False Cons show ?thesis by (simp add: p total_def)
  qed
qed

lemma getMilestonePRs_from_step:
  "getMilestonePRs_from result (issue # rest) =
     getMilestonePRs_from (if counted issue then countPR result (authorLogin issue) else result) rest"
  by (simp add: counted_def authorLogin_def split: option.splits)

lemma getMilestonePRs_from_count:
  assumes "k \<notin> set objectPrototypeKeys"
  shows "countOf (getMilestonePRs_from result issues) k =
         countOf result k + int (length (filter (\<lambda>i. counted i \<and> authorLogin i = k) issues))"
proof (induction issues arbitrary: result)
  case Nil
  show ?case by simp
next
  case (Cons issue rest)
  show ?case
  proof (cases "counted issue")
    case False
    with Cons show ?thesis by (simp only: getMilestonePRs_from_step) simp
  next
    case True
    show ?thesis
    proof (cases "authorLogin issue = k")
      case same: True
      with True assms Cons[of "countPR result k"] show ?thesis
        by (simp only: getMilestonePRs_from_step) (simp add: countPR_update countOf_update)
    next
      case other: False
      have "countOf (countPR result (authorLogin issue)) k = countOf result k"
      proof (cases "authorLogin issue \<in> set objectPrototypeKeys")
        case False
        with other show ?thesis by (simp add: countPR_update countOf_update)
      next
        case True
        with other show ?thesis
          by (auto simp add: countPR_def getProp_def setProp_def countOf_def update_conv' Let_def
                split: option.splits)
      qed
      with True other Cons[of "countPR result (authorLogin issue)"] show ?thesis
        by (simp only: getMilestonePRs_from_step) simp
    qed
  qed
qed

lemma getMilestonePRs_from_total:
  assumes "\<forall>i \<in> set issues. counted i \<longrightarrow> authorLogin i \<notin> set objectPrototypeKeys"
  shows "total (getMilestonePRs_from result issues) =
         total result + int (length (filter counted issues))"
  using assms
proof (induction issues arbitrary: result)
  case Nil
  show ?case by simp
next
  case (Cons issue rest)
  then show ?case
    by (simp only: getMilestonePRs_from_step)
       (simp add: countPR_update total_update)
qed

lemma countOf_empty: "countOf [] k = 0"
  by (simp add: countOf_def)

lemma total_empty: "total [] = 0"
  by (simp add: total_def)

text \<open>
  For a user name that is not a member of \<open>Object.prototype\<close>, the count is the number
  of entries with a pull-request marker and that author.
\<close>

lemma getMilestonePRs_count:
  "k \<notin> set objectPrototypeKeys \<Longrightarrow>
     countOf (getMilestonePRs issues) k =
     int (length (filter (\<lambda>i. counted i \<and> authorLogin i = k) issues))"
  by (simp add: getMilestonePRs_def getMilestonePRs_from_count countOf_empty)

text \<open>
  When no author is named like a member of \<open>Object.prototype\<close>, the counts sum to the
  number of entries with a pull-request marker and an author.
\<close>

lemma getMilestonePRs_total:
  "\<forall>i \<in> set issues. counted i \<longrightarrow> authorLogin i \<notin> set objectPrototypeKeys \<Longrightarrow>
     total (getMilestonePRs issues) = int (length (filter counted issues))"
  by (simp add: getMilestonePRs_def getMilestonePRs_from_total total_empty)

subsection \<open>The changelog built by the loop of \<open>generate\<close>\<close>

lemma prCategory_keyword: "prCategory pr = Some c \<Longrightarrow> c \<in> set categoryKeywords"
proof -
  assume c: "prCategory pr = Some c"
  then obtain g where g: "titleMatch (Issue.title pr) = Some g"
    and c': "c = (if matchTest (Issue.title pr) then ''test'' else toLowerCase g)"
    by (auto simp add: prCategory_def split: option.splits)
  from titleMatch_Some[OF g] have "toLowerCase g \<in> set categoryKeywords" by blast
  moreover have "''test'' \<in> set categoryKeywords" by (simp add: categoryKeywords_def)
  ultimately show ?thesis using c' by simp
qed

lemma prCategory_user: "prCategory pr = Some c \<Longrightarrow> \<exists>u. user pr = Some u"
  by (auto simp add: prCategory_def split: option.splits)

lemma keyword_not_inherited: "c \<in> set categoryKeywords \<Longrightarrow> c \<notin> set objectPrototypeKeys"
  by (auto simp add: categoryKeywords_def objectPrototypeKeys_def)

lemma push_step:
  assumes wk: "wellKeyed m" and c: "c \<notin> set objectPrototypeKeys"
  shows "\<exists>m1. pushPR (ensureCategory m c) c info = Inr m1 \<and> wellKeyed m1 \<and>
              entries m1 = insert (c, info) (entries m)"
proof -
  have np: "c \<noteq> ''__proto__''" using c by (rule proto_not_member)
  define old where "old = (case map_of m c of None \<Rightarrow> \<lparr>category = c, prs = []\<rparr> | Some cat \<Rightarrow> cat)"
  define m0 where "m0 = ensureCategory m c"
  have m0: "map_of m0 = (map_of m)(c \<mapsto> old)" "distinct (map fst m0)"
  proof -
    show "map_of m0 = (map_of m)(c \<mapsto> old)"
    proof (cases "map_of m c")
      case None
      then show ?thesis using c np
        by (simp add: m0_def old_def ensureCategory_def getProp_def setProp_def update_conv')
    next
      case (Some cat)
      then show ?thesis
        by (auto simp add: m0_def old_def ensureCategory_def getProp_def)
    qed
    show "distinct (map fst m0)" using wk
      by (cases "map_of m c")
         (simp_all add: m0_def ensureCategory_def getProp_def setProp_def wellKeyed_def
            distinct_update c np)
  qed
  have oldcat: "category old = c"
    using wk by (cases "map_of m c") (simp_all add: old_def wellKeyed_def)
  define m1 where "m1 = AList.update c (old\<lparr>prs := prs old @ [info]\<rparr>) m0"
  have push: "pushPR m0 c info = Inr m1"
    using m0(1) by (simp add: pushPR_def getProp_def setProp_def m1_def)
  have m1: "map_of m1 = (map_of m)(c \<mapsto> old\<lparr>prs := prs old @ [info]\<rparr>)"
    using m0(1) by (simp add: m1_def update_conv')
  have "wellKeyed m1"
    unfolding wellKeyed_def
  proof (intro conjI allI impI)
    show "distinct (map fst m1)" using m0(2) by (simp add: m1_def distinct_update)
  next
    fix k cat assume "map_of m1 k = Some cat"
    then show "category cat = k" using wk oldcat
      by (auto simp add: m1 wellKeyed_def split: if_splits)
  next
    fix k cat assume "map_of m1 k = Some cat"
    then show "k \<notin> set objectPrototypeKeys" using wk c
      by (auto simp add: m1 wellKeyed_def split: if_splits)
  qed
  moreover have "entries m1 = insert (c, info) (entries m)"
  proof (cases "map_of m c")
    case None
    then show ?thesis by (auto simp add: entries_def m1 old_def split: if_splits)
  next
    case (Some cat)
    then show ?thesis by (auto simp add: entries_def m1 old_def split: if_splits)
  qed
  ultimately show ?thesis using push unfolding m0_def by blast
qed

lemma categorize_entries:
  assumes "categorize issuesGet ow rp m issues = Inr (done, m')" "wellKeyed m"
  shows "wellKeyed m' \<and>
         entries m' = entries m \<union>
           {(c, info). \<exists>pr u. pr \<in> set issues \<and> user pr = Some u \<and>
                              prCategory pr = Some c \<and> info = prInfo pr u}"
  using assms
proof (induction issues arbitrary: m "done")
  case Nil
  then show ?case by simp
next
  case (Cons pr rest)
  show ?case
  proof (cases "prCategory pr")
    case None
    with Cons.prems(1) obtain done' where
      rec: "categorize issuesGet ow rp m rest = Inr (done', m')"
      by (auto split: sum.splits)
    from Cons.IH[OF rec Cons.prems(2)] None show ?thesis by auto
  next
    case (Some c)
    then obtain u where u: "user pr = Some u" using prCategory_user by blast
    have c: "c \<notin> set objectPrototypeKeys"
      using Some prCategory_keyword keyword_not_inherited by blast
    from push_step[OF Cons.prems(2) c, of "prInfo pr u"] obtain m1 where
      push: "pushPR (ensureCategory m c) c (prInfo pr u) = Inr m1" and wk1: "wellKeyed m1"
      and e1: "entries m1 = insert (c, prInfo pr u) (entries m)" by blast
    from Cons.prems(1) Some u push obtain done' where
      rec: "categorize issuesGet ow rp m1 rest = Inr (done', m')"
      by (auto split: sum.splits)
    from Cons.IH[OF rec wk1] have wk: "wellKeyed m'"
      and e: "entries m' = entries m1 \<union>
           {(c, info). \<exists>pr u. pr \<in> set rest \<and> user pr = Some u \<and>
                              prCategory pr = Some c \<and> info = prInfo pr u}" by simp_all
    have "entries m' = entries m \<union>
           {(c, info). \<exists>p u. p \<in> set (pr # rest) \<and> user p = Some u \<and>
                              prCategory p = Some c \<and> info = prInfo p u}"
      unfolding e e1 using Some u by auto
    with wk show ?thesis by simp
  qed
qed

lemma set_objectValues: "set (objectValues m) = snd ` set m"
  by (auto simp add: objectValues_def)

text \<open>
  The loop as a whole: when it ends without an error, the changelog holds under the
  category \<open>c\<close> exactly the entries of the pull requests that \<open>prCategory\<close> puts in
  \<open>c\<close>; a pull request without a category appears nowhere.
\<close>

lemma changelog_entries:
  assumes "changelogOf issuesGet ow rp issues = Inr changelog"
  shows "(\<exists>cat \<in> set changelog. category cat = c \<and> info \<in> set (prs cat)) \<longleftrightarrow>
         (\<exists>pr u. pr \<in> set issues \<and> user pr = Some u \<and> prCategory pr = Some c \<and>
                 info = prInfo pr u)"
proof -
  from assms obtain done' m' where cat: "categorize issuesGet ow rp [] issues = Inr (done', m')"
    and cl: "changelog = objectValues m'"
    by (auto simp add: changelogOf_def split: sum.splits)
  have "wellKeyed []" by (simp add: wellKeyed_def)
  from categorize_entries[OF cat this] have wk: "wellKeyed m'"
    and e: "entries m' = {(c, info). \<exists>pr u. pr \<in> set issues \<and> user pr = Some u \<and>
                              prCategory pr = Some c \<and> info = prInfo pr u}"
    by (simp_all add: entries_def)
  have "(\<exists>cat \<in> set changelog. category cat = c \<and> info \<in> set (prs cat)) \<longleftrightarrow>
        (c, info) \<in> entries m'"
  proof
    assume "\<exists>cat \<in> set changelog. category cat = c \<and> info \<in> set (prs cat)"
    then obtain k cat where "(k, cat) \<in> set m'" "category cat = c" "info \<in> set (prs cat)"
      unfolding cl set_objectValues by auto
    moreover from this wk have "map_of m' k = Some cat" by (simp add: wellKeyed_def)
    moreover from this wk have "category cat = k" by (simp add: wellKeyed_def)
    ultimately show "(c, info) \<in> entries m'" by (auto simp add: entries_def)
  next
    assume "(c, info) \<in> entries m'"
    then obtain cat where m: "map_of m' c = Some cat" and i: "info \<in> set (prs cat)"
      by (auto simp add: entries_def)
    from m wk have "category cat = c" by (simp add: wellKeyed_def)
    moreover from m have "(c, cat) \<in> set m'" by (rule map_of_SomeD)
    then have "cat \<in> set changelog" unfolding cl set_objectValues by force
    ultimately show "\<exists>cat \<in> set changelog. category cat = c \<and> info \<in> set (prs cat)"
      using i by blast
  qed
  with e show ?thesis by simp
qed

subsection \<open>Other answers to the request of the enrichment\<close>

text \<open>
  What the enrichment does on the other answers to its request: a failed request fails the
  call, an answer without data leaves the pull request as it is, and an issue whose body is
  \<open>null\<close> puts the text \<open>null\<close> before the old body.
\<close>

lemma includeDataFromIssue_other_answers:
  assumes "body pr = Str b" "issueMatch b = Some m"
    and "request = \<lparr>IssueRequest.owner = ow, repo = rp, issue_number = at (split (CHR ''#'') m) 1\<rparr>"
  shows "issuesGet request = Inl e \<Longrightarrow>
           includeDataFromIssue issuesGet ow rp pr = (Inl e, [request])"
    and "issuesGet request = Inr None \<Longrightarrow>
           includeDataFromIssue issuesGet ow rp pr = (Inr pr, [request])"
    and "issuesGet request = Inr (Some d) \<Longrightarrow> body d = Null \<Longrightarrow>
           includeDataFromIssue issuesGet ow rp pr =
             (Inr (pr\<lparr>body := Str (''null'' @ b)\<rparr>), [request])"
  using assms by (simp_all add: includeDataFromIssue_def)

text \<open>
  Claim C3. The pull request of the test suite, whose body matches with \<open>Closes #123\<close>,
  and a linked issue without a description: the issue is requested, and the new body is the
  text \<open>null\<close> followed by the old body, not the body of the issue (there is none)
  followed by the old body. With a linked issue that has a body, and for a pull request
  whose body does not match, the code does what the claim says (the theorem
  \<open>includeDataFromIssue_spec\<close> above).
\<close>

theorem includeDataFromIssue_null_body:
  "body issueWithoutBody = Null \<and>
   includeDataFromIssue (\<lambda>r. Inr (Some issueWithoutBody)) ''test-org'' ''test-repo'' prCloses =
     (Inr (prCloses\<lparr>body := Str ''nullCloses #123. PR body.''\<rparr>),
      [\<lparr>IssueRequest.owner = ''test-org'', repo = ''test-repo'', issue_number = Str ''123''\<rparr>])"
  by code_simp

end
